theory Spec2Isabelle
  imports Complex_Main
begin

section \<open>Strings of the host language\<close>

text \<open>
  Strings are character lists. The two characters that the escaping code and the
  regular-expression sources are about are named once.
\<close>

definition dquote :: char where
  "dquote = CHR 0x22"

definition bslash :: char where
  "bslash = CHR 0x5C"

text \<open>\<open>Array.prototype.join\<close>: the elements separated by \<open>sep\<close>.\<close>

fun join :: "string \<Rightarrow> string list \<Rightarrow> string" where
  "join sep [] = []"
| "join sep [x] = x"
| "join sep (x # y # ys) = x @ sep @ join sep (y # ys)"

section \<open>Variable interpolation (datasource.ts, escapeSplunkValue and interpolateSPL)\<close>

text \<open>
  \<open>String(v).replace(/(["\\])/g, '\\$1')\<close>: a global replace visits the characters from
  left to right and puts a backslash before every double quote and every backslash.
\<close>

fun escapeSplunkValue :: "string \<Rightarrow> string" where
  "escapeSplunkValue [] = []"
| "escapeSplunkValue (c # cs) =
     (if c = dquote \<or> c = bslash then bslash # c # escapeSplunkValue cs
      else c # escapeSplunkValue cs)"

text \<open>
  The value handed to the formatter by the template service: \<open>null\<close>/\<open>undefined\<close>, one
  string, or an array of strings.
\<close>

datatype varvalue = VNull | VStr string | VArr "string list"

text \<open>The template literal \<open>`"${escapeSplunkValue(String(v))}"`\<close>.\<close>

definition quoted :: "string \<Rightarrow> string" where
  "quoted v = dquote # escapeSplunkValue v @ [dquote]"

text \<open>
  The \<open>formatter\<close> closure of \<open>interpolateSPL\<close>. \<open>parts[0] ?? ''\<close> is the empty string
  for the empty array.
\<close>

fun formatter :: "varvalue \<Rightarrow> string" where
  "formatter VNull = []"
| "formatter (VArr vs) =
     (let parts = map quoted vs
      in if length parts > 1 then ''('' @ join '' OR '' parts @ '')''
         else (case parts of [] \<Rightarrow> [] | p # _ \<Rightarrow> p))"
| "formatter (VStr v) = escapeSplunkValue v"

section \<open>The platform the datasource runs on\<close>

text \<open>
  Errors are values. \<open>SyntaxError\<close> is what the \<open>RegExp\<close> constructor throws,
  \<open>Error\<close> is \<open>new Error(message)\<close> thrown by the datasource itself, and \<open>Rejected\<close>
  is whatever the transport (\<open>datasourceRequest\<close>) rejects with, together with its
  \<open>message\<close> property when it has one.
\<close>

datatype error = SyntaxError string | Error string | Rejected "string option"

fun error_message :: "error \<Rightarrow> string option" where
  "error_message (SyntaxError m) = Some m"
| "error_message (Error m) = Some m"
| "error_message (Rejected m) = m"

text \<open>
  Values of result fields as the remote engine's JSON carries them: \<open>null\<close>, a string,
  or an array of strings (a multi-value field). A record is an association list in the
  order in which \<open>Object.keys\<close> enumerates it; a key that is absent reads as
  \<open>undefined\<close>, which is \<open>None\<close>.
\<close>

datatype jsval = JNull | JStr string | JArr "string list"

type_synonym jsrecord = "(string \<times> jsval) list"

type_synonym scopedVars = "(string \<times> varvalue) list"

text \<open>
  The services of the runtime that the datasource calls and does not implement:
  the constructor \<open>new RegExp(source, flags)\<close>, which throws (\<open>Inl\<close> the message) or
  gives an object whose \<open>test\<close> is the predicate; the template service's
  \<open>replace(text, scopedVars, formatter)\<close>; \<open>Date.parse\<close>, where \<open>None\<close> is \<open>NaN\<close>;
  and the reading of the clock, \<open>Date.now()\<close>.
\<close>

record platform =
  RegExp_new :: "string \<Rightarrow> string \<Rightarrow> string + (string \<Rightarrow> bool)"
  templateSrv_replace :: "string \<Rightarrow> scopedVars \<Rightarrow> (varvalue \<Rightarrow> string) \<Rightarrow> string"
  Date_parse :: "jsval option \<Rightarrow> int option"
  Date_now :: int

definition interpolateSPL :: "platform \<Rightarrow> string \<Rightarrow> scopedVars \<Rightarrow> string" where
  "interpolateSPL P txt sv = templateSrv_replace P txt sv formatter"

section \<open>Configuration (types.ts, SplunkDataSourceOptions)\<close>

text \<open>
  Every option is optional; \<open>None\<close> is \<open>undefined\<close>. A numeric setting is any finite
  number: the editor stores the ones that are not negative, fractions included, and a
  provisioned configuration may hold a negative one. The poll budget and the poll
  interval, which the code compares with a counter and hands to the timer as they are,
  are rationals; the time-range and paging settings are taken integral.
\<close>

record SplunkDataSourceOptions =
  safeMode :: "bool option"
  maxRangeSeconds :: "int option"
  maxRows :: "int option"
  pageSize :: "int option"
  pollIntervalMs :: "rat option"
  maxPolls :: "rat option"
  bannedCommands :: "string option"
  allowDangerousCommands :: "bool option"

text \<open>\<open>x ?? d\<close> on an optional value, and the truthiness of an optional flag.\<close>

fun nullish :: "'a option \<Rightarrow> 'a \<Rightarrow> 'a" where
  "nullish None d = d"
| "nullish (Some v) d = v"

fun truthy :: "bool option \<Rightarrow> bool" where
  "truthy None = False"
| "truthy (Some b) = b"

section \<open>Guardrails (datasource.ts, compileBannedRegex and isQueryDangerous)\<close>

text \<open>
  \<open>String.prototype.trim\<close> removes white space and line terminators from both ends;
  within the 8-bit characters these are TAB, LF, VT, FF, CR, SP and NBSP.
\<close>

definition is_space :: "char \<Rightarrow> bool" where
  "is_space c =
     (c \<in> set [CHR 0x09, CHR 0x0A, CHR 0x0B, CHR 0x0C, CHR 0x0D, CHR 0x20, CHR 0xA0])"

definition trim :: "string \<Rightarrow> string" where
  "trim s = rev (dropWhile is_space (rev (dropWhile is_space s)))"

text \<open>\<open>src.split('\n')\<close>: the pieces between line feeds, at least one piece.\<close>

fun split_lines :: "string \<Rightarrow> string list" where
  "split_lines [] = [[]]"
| "split_lines (c # cs) =
     (if c = CHR 0x0A then [] # split_lines cs
      else (case split_lines cs of [] \<Rightarrow> [[c]] | l # ls \<Rightarrow> (c # l) # ls))"

text \<open>The non-empty trimmed lines of the configured deny-list.\<close>

definition banned_parts :: "SplunkDataSourceOptions \<Rightarrow> string list" where
  "banned_parts opts =
     filter (\<lambda>s. s \<noteq> []) (map trim (split_lines (trim (nullish (bannedCommands opts) []))))"

text \<open>The template literal \<open>`\\b(${parts.join('|')})\\b`\<close>.\<close>

definition banned_source :: "string list \<Rightarrow> string" where
  "banned_source parts = [bslash] @ ''b('' @ join ''|'' parts @ '')'' @ [bslash] @ ''b''"

text \<open>
  \<open>compileBannedRegex\<close>: \<open>Inr None\<close> is the \<open>null\<close> it returns when nothing is
  configured, \<open>Inl\<close> the \<open>SyntaxError\<close> of the constructor, which nothing here catches.
\<close>

definition compileBannedRegex ::
  "platform \<Rightarrow> SplunkDataSourceOptions \<Rightarrow> error + (string \<Rightarrow> bool) option" where
  "compileBannedRegex P opts =
     (let src = trim (nullish (bannedCommands opts) [])
      in if src = [] then Inr None
         else let parts = filter (\<lambda>s. s \<noteq> []) (map trim (split_lines src))
              in if parts = [] then Inr None
                 else (case RegExp_new P (banned_source parts) ''i'' of
                         Inl m \<Rightarrow> Inl (SyntaxError m)
                       | Inr re \<Rightarrow> Inr (Some re)))"

definition msg_empty :: string where
  "msg_empty = ''Query is empty.''"

definition msg_risky :: string where
  "msg_risky = ''Query includes a risky Splunk command and is blocked by guardrails.''"

text \<open>
  \<open>isQueryDangerous\<close>: \<open>Inr (Some reason)\<close> blocks, \<open>Inr None\<close> is the \<open>null\<close> that
  allows, \<open>Inl\<close> is an exception leaving the function.
\<close>

definition isQueryDangerous ::
  "platform \<Rightarrow> string \<Rightarrow> SplunkDataSourceOptions \<Rightarrow> error + string option" where
  "isQueryDangerous P q opts =
     (let text = trim q
      in if text = [] then Inr (Some msg_empty)
         else if truthy (allowDangerousCommands opts) then Inr None
         else (case compileBannedRegex P opts of
                 Inl e \<Rightarrow> Inl e
               | Inr None \<Rightarrow> Inr None
               | Inr (Some re) \<Rightarrow> if re text then Inr (Some msg_risky) else Inr None))"

section \<open>The remote engine as seen through the proxy\<close>

text \<open>
  The status payload \<open>{ entry?: [{ content?: { isDone?, dispatchState? } }] }\<close> and the
  results payload \<open>{ results?: [...], fields?: [{ name }] }\<close>; \<open>result_fields\<close> are
  the names of its \<open>fields\<close>.
\<close>

record statusContent =
  isDone :: "bool option"
  dispatchState :: "string option"

type_synonym statusData = "statusContent option list option"

record resultsData =
  results :: "jsrecord list option"
  result_fields :: "string list option"

text \<open>
  What the remote engine answers for the job of one target: the answer to the job
  creation (the \<open>sid\<close> of the payload, when it has one), the answer to the \<open>n\<close>-th status
  request, and the answer to the \<open>n\<close>-th results request. Every sequence of answers is a
  value of this type; \<open>Inl\<close> is a request that the transport rejects. What the
  requests carry (the search text, the time window, the \<open>sid\<close>) has no part in the
  properties below and does not appear; the page size and the offset of a results
  request are recorded by the paginator.
\<close>

record remote =
  create_response :: "error + string option"
  status_response :: "nat \<Rightarrow> error + statusData"
  results_response :: "nat \<Rightarrow> error + resultsData"

section \<open>Job controller (datasource.ts, createSearchJob, waitForJob, isJobDone)\<close>

definition msg_create_failed :: string where
  "msg_create_failed = ''Failed to create Splunk search job''"

definition msg_poll_timeout :: string where
  "msg_poll_timeout = ''Splunk job did not complete within polling limits''"

text \<open>\<open>if (!sid) throw\<close>: an absent and an empty \<open>sid\<close> are both falsy.\<close>

definition createSearchJob :: "remote \<Rightarrow> error + string" where
  "createSearchJob R =
     (case create_response R of
        Inl e \<Rightarrow> Inl e
      | Inr None \<Rightarrow> Inl (Error msg_create_failed)
      | Inr (Some sid) \<Rightarrow> if sid = [] then Inl (Error msg_create_failed) else Inr sid)"

text \<open>\<open>data.entry?.[0]?.content\<close>.\<close>

fun first_content :: "statusData \<Rightarrow> statusContent option" where
  "first_content None = None"
| "first_content (Some []) = None"
| "first_content (Some (e # es)) = e"

text \<open>
  \<open>isJobDone\<close> on the answer to one status request:
  \<open>!!done || state === 'DONE' || state === 'PAUSED' || state === 'FINALIZING'\<close>.
\<close>

definition isJobDone :: "error + statusData \<Rightarrow> error + bool" where
  "isJobDone resp =
     (case resp of
        Inl e \<Rightarrow> Inl e
      | Inr d \<Rightarrow>
          (let done = (case first_content d of None \<Rightarrow> None | Some c \<Rightarrow> isDone c);
               state = (case first_content d of None \<Rightarrow> None | Some c \<Rightarrow> dispatchState c)
           in Inr (truthy done \<or> state = Some ''DONE'' \<or> state = Some ''PAUSED''
                   \<or> state = Some ''FINALIZING'')))"

text \<open>
  The outcome of \<open>waitForJob\<close> together with what it did on the way: the number of
  status checks and the delays it slept, in order.
\<close>

record waited =
  outcome :: "error + unit"
  checks :: nat
  sleeps :: "rat list"

text \<open>The \<open>for\<close> loop of \<open>waitForJob\<close>, from the value \<open>i\<close> of its counter; the test
  \<open>i < maxPolls\<close> compares the counter with a number that need not be whole.\<close>

function waitForJob_loop ::
  "remote \<Rightarrow> rat \<Rightarrow> rat \<Rightarrow> nat \<Rightarrow> rat list \<Rightarrow> waited" where
  "waitForJob_loop R pollMs maxPolls' i slept =
     (if of_nat i < maxPolls' then
        (case isJobDone (status_response R i) of
           Inl e \<Rightarrow> \<lparr>outcome = Inl e, checks = Suc i, sleeps = slept\<rparr>
         | Inr done \<Rightarrow>
             if done then \<lparr>outcome = Inr (), checks = Suc i, sleeps = slept\<rparr>
             else waitForJob_loop R pollMs maxPolls' (Suc i) (slept @ [pollMs]))
      else \<lparr>outcome = Inl (Error msg_poll_timeout), checks = i, sleeps = slept\<rparr>)"
  by pat_completeness auto
termination
proof (relation "measure (\<lambda>(R, pollMs, maxPolls', i, slept). nat \<lceil>maxPolls'\<rceil> - i)")
  show "wf (measure (\<lambda>(R, pollMs, maxPolls', i, slept). nat \<lceil>maxPolls'\<rceil> - i))"
    by simp
next
  fix R :: remote and pollMs maxPolls' :: rat and i :: nat and slept :: "rat list"
  assume "of_nat i < maxPolls'"
  then have "int i < \<lceil>maxPolls'\<rceil>"
    by (simp add: less_ceiling_iff)
  then show "((R, pollMs, maxPolls', Suc i, slept @ [pollMs]), (R, pollMs, maxPolls', i, slept))
      \<in> measure (\<lambda>(R, pollMs, maxPolls', i, slept). nat \<lceil>maxPolls'\<rceil> - i)"
    by simp
qed

definition waitForJob :: "SplunkDataSourceOptions \<Rightarrow> remote \<Rightarrow> waited" where
  "waitForJob opts R =
     (let pollMs = max 100 (nullish (pollIntervalMs opts) 1000);
          maxPolls' = max 1 (nullish (maxPolls opts) 30)
      in waitForJob_loop R pollMs maxPolls' 0 [])"

section \<open>Row mapper and result paginator (datasource.ts, the try block of query)\<close>

record row =
  time :: int
  host :: jsval
  message :: jsval

text \<open>\<open>a ?? b\<close> on field reads: \<open>undefined\<close> and \<open>null\<close> both give way to \<open>b\<close>.\<close>

fun nullish_field :: "jsval option \<Rightarrow> jsval option \<Rightarrow> jsval option" where
  "nullish_field None b = b"
| "nullish_field (Some JNull) b = b"
| "nullish_field (Some v) b = Some v"

fun nullish_value :: "jsval option \<Rightarrow> jsval \<Rightarrow> jsval" where
  "nullish_value None d = d"
| "nullish_value (Some JNull) d = d"
| "nullish_value (Some v) d = v"

text \<open>
  The body of the \<open>for (const r of rows)\<close> loop. \<open>Date.parse(r._time) || Date.now()\<close>
  takes the clock when the parse is \<open>NaN\<close> and also when it is \<open>0\<close>, both being falsy.
\<close>

definition mapRow :: "platform \<Rightarrow> jsrecord \<Rightarrow> row" where
  "mapRow P r =
     \<lparr>time = (case Date_parse P (map_of r ''_time'') of
                None \<Rightarrow> Date_now P
              | Some t \<Rightarrow> if t = 0 then Date_now P else t),
      host = nullish_value
               (nullish_field (nullish_field (map_of r ''host'') (map_of r ''sourceHost''))
                  (map_of r ''hosts''))
               (JStr []),
      message = nullish_value
                  (nullish_field (nullish_field (map_of r ''_raw'') (map_of r ''message''))
                     (map_of r ''_msg''))
                  (JStr [])\<rparr>"

text \<open>
  \<open>fetchResults(sid, count, offset)\<close>: \<open>count\<close> and \<open>offset\<close> go into the URL; the answer
  is the remote engine's answer to its \<open>n\<close>-th results request.
\<close>

definition fetchResults :: "remote \<Rightarrow> nat \<Rightarrow> int \<Rightarrow> int \<Rightarrow> error + resultsData" where
  "fetchResults R n count' offset' = results_response R n"

text \<open>
  The variables of the \<open>while (true)\<close> loop, and with them the requests issued so far
  as pairs (count, offset) and their number.
\<close>

record paging =
  offset :: int
  totalAdded :: int
  table :: "row list"
  requests :: "(int \<times> int) list"
  fetches :: nat

text \<open>
  One pass through the body of the loop: \<open>Inl\<close> an exception, otherwise the new
  variables and whether the loop goes round again (\<open>False\<close> is a \<open>break\<close>).
\<close>

definition page_body ::
  "platform \<Rightarrow> remote \<Rightarrow> int \<Rightarrow> int \<Rightarrow> paging \<Rightarrow> error + (bool \<times> paging)" where
  "page_body P R pageSize' maxRows' st =
     (case fetchResults R (fetches st) pageSize' (offset st) of
        Inl e \<Rightarrow> Inl e
      | Inr res \<Rightarrow>
          (let rows = nullish (results res) [];
               st1 = st\<lparr>requests := requests st @ [(pageSize', offset st)],
                        fetches := Suc (fetches st)\<rparr>
           in if rows = [] then Inr (False, st1)
              else
                (let st2 = st1\<lparr>table := table st1 @ map (mapRow P) rows,
                              totalAdded := totalAdded st1 + int (length rows)\<rparr>
                 in if maxRows' > 0 \<and> totalAdded st2 \<ge> maxRows' then Inr (False, st2)
                    else
                      (let st3 = st2\<lparr>offset := offset st2 + int (length rows)\<rparr>
                       in if int (length rows) < pageSize' then Inr (False, st3)
                          else Inr (True, st3)))))"

text \<open>The loop itself; it need not end, and \<open>None\<close> is the run that never ends.\<close>

partial_function (option) page_loop ::
  "platform \<Rightarrow> remote \<Rightarrow> int \<Rightarrow> int \<Rightarrow> paging \<Rightarrow> (error + paging) option" where
  "page_loop P R pageSize' maxRows' st =
     (case page_body P R pageSize' maxRows' st of
        Inl e \<Rightarrow> Some (Inl e)
      | Inr (again, st') \<Rightarrow>
          if again then page_loop P R pageSize' maxRows' st' else Some (Inr st'))"

definition paging_start :: paging where
  "paging_start = \<lparr>offset = 0, totalAdded = 0, table = [], requests = [], fetches = 0\<rparr>"

text \<open>The \<open>try\<close> block of \<open>query\<close> for one target.\<close>

definition run_search ::
  "platform \<Rightarrow> SplunkDataSourceOptions \<Rightarrow> remote \<Rightarrow> (error + paging) option" where
  "run_search P opts R =
     (case createSearchJob R of
        Inl e \<Rightarrow> Some (Inl e)
      | Inr sid \<Rightarrow>
          (case outcome (waitForJob opts R) of
             Inl e \<Rightarrow> Some (Inl e)
           | Inr u \<Rightarrow>
               (let pageSize' = max 1 (min (nullish (pageSize opts) 200) 5000);
                    maxRows' = max 0 (nullish (maxRows opts) 2000)
                in page_loop P R pageSize' maxRows' paging_start)))"

section \<open>Query orchestrator (datasource.ts, query)\<close>

record SplunkQuery =
  refId :: string
  queryText :: "string option"
  hide :: "bool option"

record request =
  range_from :: int
  range_to :: int
  targets :: "SplunkQuery list"
  scopedVars :: scopedVars

text \<open>
  The data frames of the response: the batch-level frame of the time-range guardrail,
  and per target a warning, a table or an error frame, each with the target's
  \<open>refId\<close>.
\<close>

datatype frame =
    InfoFrame int string
  | WarningFrame string int string
  | TableFrame string "row list"
  | ErrorFrame string int string

fun frame_refId :: "frame \<Rightarrow> string" where
  "frame_refId (InfoFrame t m) = ''guardrails''"
| "frame_refId (WarningFrame r t m) = r"
| "frame_refId (TableFrame r rows) = r"
| "frame_refId (ErrorFrame r t m) = r"

text \<open>Decimal digits of a number, for the message of the time-range guardrail.\<close>

fun show_nat :: "nat \<Rightarrow> string" where
  "show_nat n = (if n < 10 then [''0123456789'' ! n] else show_nat (n div 10) @ [''0123456789'' ! (n mod 10)])"

declare show_nat.simps [simp del]

definition show_int :: "int \<Rightarrow> string" where
  "show_int i = (if i < 0 then ''-'' @ show_nat (nat (- i)) else show_nat (nat i))"

text \<open>
  The body of \<open>for (const target of req.targets)\<close>: \<open>Some (Inl e)\<close> is an exception
  that leaves \<open>query\<close>, \<open>Some (Inr None)\<close> a target that adds no frame, \<open>None\<close> a body
  that never ends.
\<close>

definition query_target ::
  "platform \<Rightarrow> SplunkDataSourceOptions \<Rightarrow> scopedVars \<Rightarrow> remote \<Rightarrow> SplunkQuery
     \<Rightarrow> (error + frame option) option" where
  "query_target P opts sv R target =
     (if truthy (hide target) then Some (Inr None)
      else
        (let rawText = nullish (queryText target) [];
             queryText' = interpolateSPL P rawText sv
         in case isQueryDangerous P queryText' opts of
              Inl e \<Rightarrow> Some (Inl e)
            | Inr (Some validation) \<Rightarrow>
                Some (Inr (Some (WarningFrame (refId target) (Date_now P) validation)))
            | Inr None \<Rightarrow>
                (case run_search P opts R of
                   None \<Rightarrow> None
                 | Some (Inl err) \<Rightarrow>
                     Some (Inr (Some (ErrorFrame (refId target) (Date_now P)
                                        (nullish (error_message err) ''Query failed''))))
                 | Some (Inr st) \<Rightarrow> Some (Inr (Some (TableFrame (refId target) (table st)))))))"

text \<open>
  The loop over the targets; the \<open>k\<close>-th target of the batch talks to the remote
  engine about its own job, \<open>Rs k\<close>.
\<close>

fun query_loop ::
  "platform \<Rightarrow> SplunkDataSourceOptions \<Rightarrow> scopedVars \<Rightarrow> (nat \<Rightarrow> remote) \<Rightarrow> nat
     \<Rightarrow> SplunkQuery list \<Rightarrow> frame list \<Rightarrow> (error + frame list) option" where
  "query_loop P opts sv Rs k [] frames = Some (Inr frames)"
| "query_loop P opts sv Rs k (target # rest) frames =
     (case query_target P opts sv (Rs k) target of
        None \<Rightarrow> None
      | Some (Inl e) \<Rightarrow> Some (Inl e)
      | Some (Inr None) \<Rightarrow> query_loop P opts sv Rs (Suc k) rest frames
      | Some (Inr (Some f)) \<Rightarrow> query_loop P opts sv Rs (Suc k) rest (frames @ [f]))"

text \<open>\<open>Math.ceil((to - from) / 1000)\<close> on integral milliseconds.\<close>

definition range_seconds :: "request \<Rightarrow> int" where
  "range_seconds req = - ((range_from req - range_to req) div 1000)"

definition range_exceeded :: "SplunkDataSourceOptions \<Rightarrow> request \<Rightarrow> bool" where
  "range_exceeded opts req =
     (truthy (safeMode opts)
      \<and> range_seconds req > nullish (maxRangeSeconds opts) (24 * 60 * 60))"

definition query ::
  "platform \<Rightarrow> SplunkDataSourceOptions \<Rightarrow> (nat \<Rightarrow> remote) \<Rightarrow> request
     \<Rightarrow> (error + frame list) option" where
  "query P opts Rs req =
     (if range_exceeded opts req then
        Some (Inr [InfoFrame (Date_now P)
                     (''Time range ('' @ show_int (range_seconds req)
                        @ ''s) exceeds the configured cap (''
                        @ show_int (nullish (maxRangeSeconds opts) (24 * 60 * 60)) @ ''s).'')])
      else query_loop P opts (scopedVars req) Rs 0 (targets req) [])"

section \<open>Variable queries (datasource.ts, metricFindQuery)\<close>

text \<open>\<open>String(v)\<close> on a field value, and on the read of a field that may be absent.\<close>

fun String :: "jsval \<Rightarrow> string" where
  "String JNull = ''null''"
| "String (JStr s) = s"
| "String (JArr xs) = join '','' xs"

fun String' :: "jsval option \<Rightarrow> string" where
  "String' None = ''undefined''"
| "String' (Some v) = String v"

text \<open>\<open>res.fields?.[0]?.name\<close> and \<open>Object.keys(rows[0] ?? {})[0]\<close>.\<close>

fun first_name :: "string list option \<Rightarrow> string option" where
  "first_name None = None"
| "first_name (Some []) = None"
| "first_name (Some (n # ns)) = Some n"

fun first_key :: "jsrecord list \<Rightarrow> string option" where
  "first_key [] = None"
| "first_key ([] # rs) = None"
| "first_key (((k, v) # kvs) # rs) = Some k"

text \<open>\<open>!firstField\<close>: \<open>undefined\<close> and the empty string are falsy.\<close>

fun falsy_name :: "string option \<Rightarrow> bool" where
  "falsy_name None = True"
| "falsy_name (Some n) = (n = [])"

text \<open>The filter \<open>v != null && v !== ''\<close>.\<close>

fun keep_value :: "jsval option \<Rightarrow> bool" where
  "keep_value None = False"
| "keep_value (Some JNull) = False"
| "keep_value (Some (JStr s)) = (s \<noteq> [])"
| "keep_value (Some (JArr xs)) = True"

text \<open>The \<open>try\<close> block of \<open>metricFindQuery\<close>; \<open>Inl\<close> is what its \<open>catch\<close> receives.\<close>

definition metricFind_try ::
  "SplunkDataSourceOptions \<Rightarrow> remote \<Rightarrow> error + (string \<times> string) list" where
  "metricFind_try opts R =
     (case createSearchJob R of
        Inl e \<Rightarrow> Inl e
      | Inr sid \<Rightarrow>
          (case outcome (waitForJob opts R) of
             Inl e \<Rightarrow> Inl e
           | Inr u \<Rightarrow>
               (case fetchResults R 0 500 0 of
                  Inl e \<Rightarrow> Inl e
                | Inr res \<Rightarrow>
                    (let rows = nullish (results res) []
                     in if rows = [] then Inr []
                        else
                          (let firstField = first_name (result_fields res);
                               firstField' = (if falsy_name firstField then first_key rows
                                              else firstField)
                           in case firstField' of
                                None \<Rightarrow> Inr []
                              | Some f \<Rightarrow>
                                  if f = [] then Inr []
                                  else Inr (map (\<lambda>v. (String' v, String' v))
                                              (filter keep_value
                                                 (map (\<lambda>r. map_of r f) rows))))))))"

definition metricFindQuery ::
  "platform \<Rightarrow> SplunkDataSourceOptions \<Rightarrow> remote \<Rightarrow> string + SplunkQuery
     \<Rightarrow> error + (string \<times> string) list" where
  "metricFindQuery P opts R query' =
     (let raw = (case query' of Inl s \<Rightarrow> s | Inr q \<Rightarrow> nullish (queryText q) []);
          qText = interpolateSPL P raw []
      in case isQueryDangerous P qText opts of
           Inl e \<Rightarrow> Inl e
         | Inr (Some validation) \<Rightarrow> Inr []
         | Inr None \<Rightarrow>
             (case metricFind_try opts R of
                Inl e \<Rightarrow> Inr []
              | Inr values \<Rightarrow> Inr values))"

section \<open>A regular-expression constructor for the examples\<close>

text \<open>
  The theorems below hold for every platform. To run the datasource on concrete
  configurations a constructor is needed; this one implements a fragment of the
  ECMAScript pattern syntax with the \<open>i\<close> flag: characters, \<open>.\<close>, the escapes
  \<open>\d \D \s \S \w \W \t \n \v \f \r\<close>, escaped punctuation, the assertions
  \<open>^ $ \b \B\<close>, groups \<open>( )\<close> and \<open>(?: )\<close>, alternation, and the quantifiers
  \<open>* + ?\<close> (greedy or lazy). It tells a pattern that no engine accepts (\<open>Invalid\<close>:
  an unbalanced parenthesis, a quantifier with nothing to repeat, a trailing backslash)
  from a pattern that is merely outside the fragment (\<open>Unsupported\<close>).
\<close>

definition is_digit :: "char \<Rightarrow> bool" where
  "is_digit c = (let n = (of_char c :: nat) in 48 \<le> n \<and> n \<le> 57)"

definition is_alpha :: "char \<Rightarrow> bool" where
  "is_alpha c =
     (let n = (of_char c :: nat) in (65 \<le> n \<and> n \<le> 90) \<or> (97 \<le> n \<and> n \<le> 122))"

definition is_word :: "char \<Rightarrow> bool" where
  "is_word c = (is_alpha c \<or> is_digit c \<or> c = CHR ''_'')"

text \<open>
  Case folding of the \<open>i\<close> flag, as the code of the upper-case character: two
  characters match when their codes agree.
\<close>

definition canonicalize :: "char \<Rightarrow> nat" where
  "canonicalize c =
     (let n = (of_char c :: nat)
      in if (97 \<le> n \<and> n \<le> 122) \<or> (224 \<le> n \<and> n \<le> 254 \<and> n \<noteq> 247) then n - 32 else n)"

datatype cls = Digit | Space | Word

fun in_cls :: "cls \<Rightarrow> char \<Rightarrow> bool" where
  "in_cls Digit c = is_digit c"
| "in_cls Space c = is_space c"
| "in_cls Word c = is_word c"

datatype rx =
    Eps | Chr char | AnyChar | Cls cls | NotCls cls | Bol | Eol | WordB | NotWordB
  | Cat rx rx | Or rx rx | Star rx

text \<open>\<open>\b\<close> holds at \<open>i\<close> when exactly one of the characters around \<open>i\<close> is a word character.\<close>

definition at_boundary :: "string \<Rightarrow> nat \<Rightarrow> bool" where
  "at_boundary s i =
     ((0 < i \<and> i \<le> length s \<and> is_word (s ! (i - 1))) \<noteq> (i < length s \<and> is_word (s ! i)))"

text \<open>
  The positions at which a match of \<open>r\<close> that starts at \<open>i\<close> can end. An iteration of
  a star that consumes nothing is dropped, as the matcher of the language does.
\<close>

function ends :: "rx \<Rightarrow> string \<Rightarrow> nat \<Rightarrow> nat list" where
  "ends Eps s i = [i]"
| "ends (Chr c) s i =
     (if i < length s \<and> canonicalize (s ! i) = canonicalize c then [Suc i] else [])"
| "ends AnyChar s i =
     (if i < length s \<and> s ! i \<noteq> CHR 0x0A \<and> s ! i \<noteq> CHR 0x0D then [Suc i] else [])"
| "ends (Cls k) s i = (if i < length s \<and> in_cls k (s ! i) then [Suc i] else [])"
| "ends (NotCls k) s i = (if i < length s \<and> \<not> in_cls k (s ! i) then [Suc i] else [])"
| "ends Bol s i = (if i = 0 then [i] else [])"
| "ends Eol s i = (if i = length s then [i] else [])"
| "ends WordB s i = (if at_boundary s i then [i] else [])"
| "ends NotWordB s i = (if at_boundary s i then [] else [i])"
| "ends (Cat a b) s i = remdups (concat (map (ends b s) (ends a s i)))"
| "ends (Or a b) s i = remdups (ends a s i @ ends b s i)"
| "ends (Star a) s i =
     remdups (i # concat (map (ends (Star a) s)
                            (filter (\<lambda>j. i < j \<and> j \<le> length s) (ends a s i))))"
  by pat_completeness auto
termination
  by (relation "measures [\<lambda>(r, s, i). size r, \<lambda>(r, s, i). length s - i]") auto

text \<open>\<open>re.test(s)\<close> without the \<open>g\<close> and \<open>y\<close> flags: a match may start anywhere.\<close>

definition rx_test :: "rx \<Rightarrow> string \<Rightarrow> bool" where
  "rx_test r s = list_ex (\<lambda>i. ends r s i \<noteq> []) [0..<Suc (length s)]"

datatype token =
    TChar char | TAny | TCls cls | TNotCls cls | TBol | TEol | TWordB | TNotWordB
  | TOpen | TClose | TBar | TStar | TPlus | TQuest | TBad | TUnsupported

definition plain_token :: "char \<Rightarrow> token" where
  "plain_token c =
     (if c = CHR ''('' then TOpen else if c = CHR '')'' then TClose
      else if c = CHR ''|'' then TBar else if c = CHR ''*'' then TStar
      else if c = CHR ''+'' then TPlus else if c = CHR ''?'' then TQuest
      else if c = CHR ''.'' then TAny else if c = CHR ''^'' then TBol
      else if c = CHR ''$'' then TEol else if c = bslash then TBad
      else if c \<in> set ''[]{}'' then TUnsupported
      else TChar c)"

definition escape_token :: "char \<Rightarrow> token" where
  "escape_token c =
     (if c = CHR ''d'' then TCls Digit else if c = CHR ''D'' then TNotCls Digit
      else if c = CHR ''s'' then TCls Space else if c = CHR ''S'' then TNotCls Space
      else if c = CHR ''w'' then TCls Word else if c = CHR ''W'' then TNotCls Word
      else if c = CHR ''b'' then TWordB else if c = CHR ''B'' then TNotWordB
      else if c = CHR ''t'' then TChar (CHR 0x09) else if c = CHR ''n'' then TChar (CHR 0x0A)
      else if c = CHR ''v'' then TChar (CHR 0x0B) else if c = CHR ''f'' then TChar (CHR 0x0C)
      else if c = CHR ''r'' then TChar (CHR 0x0D)
      else if is_word c \<or> (of_char c :: nat) < 32 \<or> 127 \<le> (of_char c :: nat)
        then TUnsupported
      else TChar c)"

fun tokenize :: "string \<Rightarrow> token list" where
  "tokenize [] = []"
| "tokenize [c] = [plain_token c]"
| "tokenize (c # d # cs) =
     (if c = bslash then escape_token d # tokenize cs
      else if c = CHR ''('' \<and> d = CHR ''?'' then
        (case cs of
           [] \<Rightarrow> [TUnsupported]
         | e # es \<Rightarrow> if e = CHR '':'' then TOpen # tokenize es else [TUnsupported])
      else plain_token c # tokenize (d # cs))"

text \<open>
  The parser keeps, for the group being read, the alternatives already closed and the
  terms of the current alternative (latest first), each with what may follow it: a
  quantifier after an atom, a lazy mark after a quantifier, neither after an assertion.
\<close>

datatype kind = KAtom | KQuantified | KLazy | KAssertion

type_synonym group = "rx list \<times> (rx \<times> kind) list"

fun mk_seq :: "rx list \<Rightarrow> rx" where
  "mk_seq [] = Eps"
| "mk_seq [r] = r"
| "mk_seq (r # q # rs) = Cat r (mk_seq (q # rs))"

fun mk_alt :: "rx \<Rightarrow> rx list \<Rightarrow> rx" where
  "mk_alt r [] = r"
| "mk_alt r (q # qs) = Or r (mk_alt q qs)"

definition close_group :: "group \<Rightarrow> rx" where
  "close_group g =
     (case rev (mk_seq (rev (map fst (snd g))) # fst g) of
        [] \<Rightarrow> Eps
      | r # rs \<Rightarrow> mk_alt r rs)"

definition push :: "rx \<Rightarrow> kind \<Rightarrow> group \<Rightarrow> group" where
  "push r k g = (fst g, (r, k) # snd g)"

definition next_alt :: "group \<Rightarrow> group" where
  "next_alt g = (mk_seq (rev (map fst (snd g))) # fst g, [])"

datatype quant = QStar | QPlus | QOpt

fun apply_quant :: "quant \<Rightarrow> rx \<Rightarrow> rx" where
  "apply_quant QStar r = Star r"
| "apply_quant QPlus r = Cat r (Star r)"
| "apply_quant QOpt r = Or r Eps"

fun quantify :: "quant \<Rightarrow> group \<Rightarrow> group option" where
  "quantify q (alts, (r, KAtom) # items) = Some (alts, (apply_quant q r, KQuantified) # items)"
| "quantify QOpt (alts, (r, KQuantified) # items) = Some (alts, (r, KLazy) # items)"
| "quantify q g = None"

datatype parsed = Parsed rx | Invalid | Unsupported

fun parse :: "token list \<Rightarrow> group \<Rightarrow> group list \<Rightarrow> parsed" where
  "parse [] g [] = Parsed (close_group g)"
| "parse [] g (h # hs) = Invalid"
| "parse (TUnsupported # ts) g st = Unsupported"
| "parse (TBad # ts) g st = Invalid"
| "parse (TOpen # ts) g st = parse ts ([], []) (g # st)"
| "parse (TClose # ts) g [] = Invalid"
| "parse (TClose # ts) g (h # hs) = parse ts (push (close_group g) KAtom h) hs"
| "parse (TBar # ts) g st = parse ts (next_alt g) st"
| "parse (TStar # ts) g st =
     (case quantify QStar g of None \<Rightarrow> Invalid | Some g' \<Rightarrow> parse ts g' st)"
| "parse (TPlus # ts) g st =
     (case quantify QPlus g of None \<Rightarrow> Invalid | Some g' \<Rightarrow> parse ts g' st)"
| "parse (TQuest # ts) g st =
     (case quantify QOpt g of None \<Rightarrow> Invalid | Some g' \<Rightarrow> parse ts g' st)"
| "parse (TChar c # ts) g st = parse ts (push (Chr c) KAtom g) st"
| "parse (TAny # ts) g st = parse ts (push AnyChar KAtom g) st"
| "parse (TCls k # ts) g st = parse ts (push (Cls k) KAtom g) st"
| "parse (TNotCls k # ts) g st = parse ts (push (NotCls k) KAtom g) st"
| "parse (TBol # ts) g st = parse ts (push Bol KAssertion g) st"
| "parse (TEol # ts) g st = parse ts (push Eol KAssertion g) st"
| "parse (TWordB # ts) g st = parse ts (push WordB KAssertion g) st"
| "parse (TNotWordB # ts) g st = parse ts (push NotWordB KAssertion g) st"

definition parse_pattern :: "string \<Rightarrow> parsed" where
  "parse_pattern src = parse (tokenize src) ([], []) []"

definition RegExp_fragment :: "string \<Rightarrow> string \<Rightarrow> string + (string \<Rightarrow> bool)" where
  "RegExp_fragment src flags =
     (case parse_pattern src of
        Parsed r \<Rightarrow> if flags = ''i'' then Inr (rx_test r) else Inl ''flags outside the fragment''
      | Invalid \<Rightarrow> Inl ''Invalid regular expression''
      | Unsupported \<Rightarrow> Inl ''pattern outside the fragment'')"

text \<open>
  The platform of the examples: the constructor above; a template service that finds
  no variable reference in the text (the example queries have none); \<open>Date.parse\<close>
  tabulated for the one date the examples use, the epoch, and \<open>NaN\<close> otherwise (the
  example records carry no other \<open>_time\<close>); a reading of the clock.
\<close>

definition epoch_string :: string where
  "epoch_string = ''1970-01-01T00:00:00.000+00:00''"

definition example_platform :: platform where
  "example_platform =
     \<lparr>RegExp_new = RegExp_fragment,
      templateSrv_replace = (\<lambda>txt sv f. txt),
      Date_parse = (\<lambda>v. if v = Some (JStr epoch_string) then Some 0 else None),
      Date_now = 1762128000000\<rparr>"

text \<open>The deny-list that the configuration editor offers as its default.\<close>

definition default_bannedCommands :: string where
  "default_bannedCommands =
     join [CHR 0x0A]
       [''outputlookup'', ''sendemail'', ''rest'', ''delete'', ''collect'', ''sendalert'',
        ''runshellscript'', ''script'', ''mcollect'', ''loadjob'',
        ''map'' @ [bslash] @ ''s+'' @ [bslash] @ ''['']"

text \<open>A configuration with nothing set: every option takes its default.\<close>

definition no_options :: SplunkDataSourceOptions where
  "no_options =
     \<lparr>safeMode = None, maxRangeSeconds = None, maxRows = None, pageSize = None,
      pollIntervalMs = None, maxPolls = None, bannedCommands = None,
      allowDangerousCommands = None\<rparr>"

section \<open>Notions used in the statements\<close>

text \<open>
  The deny-list compiles when there is nothing to compile or the constructor accepts
  the source built from its parts; it matches a text when the compiled expression
  tests true on it.
\<close>

definition deny_list_compiles :: "platform \<Rightarrow> SplunkDataSourceOptions \<Rightarrow> bool" where
  "deny_list_compiles P opts =
     (case banned_parts opts of
        [] \<Rightarrow> True
      | p # ps \<Rightarrow> (case RegExp_new P (banned_source (p # ps)) ''i'' of
                    Inl m \<Rightarrow> False
                  | Inr re \<Rightarrow> True))"

definition deny_list_matches :: "platform \<Rightarrow> SplunkDataSourceOptions \<Rightarrow> string \<Rightarrow> bool" where
  "deny_list_matches P opts text =
     (case banned_parts opts of
        [] \<Rightarrow> False
      | p # ps \<Rightarrow> (case RegExp_new P (banned_source (p # ps)) ''i'' of
                    Inl m \<Rightarrow> False
                  | Inr re \<Rightarrow> re text))"

text \<open>
  Two configurations: the default deny-list of the editor, and a deny-list whose only
  line is an opening parenthesis.
\<close>

definition guarded_options :: SplunkDataSourceOptions where
  "guarded_options = no_options\<lparr>bannedCommands := Some default_bannedCommands\<rparr>"

definition broken_options :: SplunkDataSourceOptions where
  "broken_options = no_options\<lparr>bannedCommands := Some ''(''\<rparr>"

text \<open>
  The clamped settings of \<open>waitForJob\<close>; the number of status checks that the clamped
  budget allows, which is the budget rounded up to a whole number; and the two fields
  \<open>isJobDone\<close> reads.
\<close>

definition effective_maxPolls :: "SplunkDataSourceOptions \<Rightarrow> rat" where
  "effective_maxPolls opts = max 1 (nullish (maxPolls opts) 30)"

definition effective_pollMs :: "SplunkDataSourceOptions \<Rightarrow> rat" where
  "effective_pollMs opts = max 100 (nullish (pollIntervalMs opts) 1000)"

definition poll_limit :: "SplunkDataSourceOptions \<Rightarrow> nat" where
  "poll_limit opts = nat \<lceil>effective_maxPolls opts\<rceil>"

definition status_flag :: "statusData \<Rightarrow> bool option" where
  "status_flag d = (case first_content d of None \<Rightarrow> None | Some c \<Rightarrow> isDone c)"

definition status_state :: "statusData \<Rightarrow> string option" where
  "status_state d = (case first_content d of None \<Rightarrow> None | Some c \<Rightarrow> dispatchState c)"


text \<open>
  Remote engines for the examples. \<open>example_remote k pages\<close> creates the job, reports
  it running for the first \<open>k\<close> status requests and done from then on, and answers
  the \<open>n\<close>-th results request with the \<open>n\<close>-th of \<open>pages\<close> (an empty page after the
  last). The transport rejects every status request for \<open>rejecting_remote\<close>. The
  configurations set the poll budget to 3, to 0, and to two and a half, and both poll
  settings to 0.
\<close>

definition running_status :: statusData where
  "running_status = Some [Some \<lparr>isDone = Some False, dispatchState = Some ''RUNNING''\<rparr>]"

definition done_status :: statusData where
  "done_status = Some [Some \<lparr>isDone = Some True, dispatchState = Some ''DONE''\<rparr>]"

definition example_remote :: "nat \<Rightarrow> jsrecord list list \<Rightarrow> remote" where
  "example_remote k pages =
     \<lparr>create_response = Inr (Some ''sid1''),
      status_response = (\<lambda>n. Inr (if n < k then running_status else done_status)),
      results_response =
        (\<lambda>n. Inr \<lparr>results = Some (if n < length pages then pages ! n else []),
                   result_fields = None\<rparr>)\<rparr>"

definition rejecting_remote :: remote where
  "rejecting_remote =
     \<lparr>create_response = Inr (Some ''sid1''),
      status_response = (\<lambda>n. Inl (Rejected (Some ''Bad Gateway''))),
      results_response = (\<lambda>n. Inr \<lparr>results = Some [], result_fields = None\<rparr>)\<rparr>"

definition three_polls :: SplunkDataSourceOptions where
  "three_polls = no_options\<lparr>maxPolls := Some 3\<rparr>"

definition zero_polls :: SplunkDataSourceOptions where
  "zero_polls = no_options\<lparr>maxPolls := Some 0\<rparr>"

definition half_polls :: SplunkDataSourceOptions where
  "half_polls = no_options\<lparr>maxPolls := Some (5 / 2)\<rparr>"

definition zero_poll_settings :: SplunkDataSourceOptions where
  "zero_poll_settings = no_options\<lparr>maxPolls := Some 0, pollIntervalMs := Some 0\<rparr>"

text \<open>
  The clamped settings of the paginator, and the answers of the remote engine read as
  a sequence of pages: whether the \<open>n\<close>-th results request returns a payload, the
  rows of its payload, the number of rows of the pages before the \<open>n\<close>-th, and the
  stop condition of the loop at the \<open>n\<close>-th page (the page is empty; or the cap is
  positive and the rows fetched so far, this page included, reach it; or the page is
  shorter than the page size).
\<close>

definition effective_pageSize :: "SplunkDataSourceOptions \<Rightarrow> int" where
  "effective_pageSize opts = max 1 (min (nullish (pageSize opts) 200) 5000)"

definition effective_maxRows :: "SplunkDataSourceOptions \<Rightarrow> int" where
  "effective_maxRows opts = max 0 (nullish (maxRows opts) 2000)"

definition fetch_ok :: "remote \<Rightarrow> nat \<Rightarrow> bool" where
  "fetch_ok R n = (case results_response R n of Inl e \<Rightarrow> False | Inr res \<Rightarrow> True)"

definition page_of :: "remote \<Rightarrow> nat \<Rightarrow> jsrecord list" where
  "page_of R n = (case results_response R n of Inl e \<Rightarrow> [] | Inr res \<Rightarrow> nullish (results res) [])"

fun rows_before :: "remote \<Rightarrow> nat \<Rightarrow> int" where
  "rows_before R 0 = 0"
| "rows_before R (Suc n) = rows_before R n + int (length (page_of R n))"

definition stops_at :: "int \<Rightarrow> int \<Rightarrow> remote \<Rightarrow> nat \<Rightarrow> bool" where
  "stops_at ps mr R n =
     (page_of R n = []
      \<or> (0 < mr \<and> mr \<le> rows_before R (Suc n))
      \<or> int (length (page_of R n)) < ps)"

text \<open>Configurations, records, remote engines and requests of the examples.\<close>

definition sixty_rows_options :: SplunkDataSourceOptions where
  "sixty_rows_options = no_options\<lparr>maxRows := Some 50, pageSize := Some 20\<rparr>"

definition event_record :: jsrecord where
  "event_record = [(''_raw'', JStr ''event'')]"

definition full_pages_remote :: remote where
  "full_pages_remote = example_remote 0 (replicate 5 (replicate 20 event_record))"

definition full_pages_jobs :: "nat \<Rightarrow> remote" where
  "full_pages_jobs k = full_pages_remote"

definition target_A :: SplunkQuery where
  "target_A = \<lparr>refId = ''A'', queryText = Some ''search index=main'', hide = None\<rparr>"

definition one_target_request :: request where
  "one_target_request =
     \<lparr>range_from = 0, range_to = 3600000, targets = [target_A], scopedVars = []\<rparr>"

definition event_row :: row where
  "event_row = \<lparr>time = 1762128000000, host = JStr [], message = JStr ''event''\<rparr>"

definition unlimited_options :: SplunkDataSourceOptions where
  "unlimited_options = no_options\<lparr>maxRows := Some 0, pageSize := Some 20\<rparr>"

definition short_tail_remote :: remote where
  "short_tail_remote = example_remote 0 [replicate 20 event_record, replicate 7 event_record]"





text \<open>
  A field read is missing when it is \<open>undefined\<close> or \<open>null\<close>; \<open>first_present\<close> is the
  first of a list of field reads that is not missing, the empty string when there is
  none.
\<close>

fun missing :: "jsval option \<Rightarrow> bool" where
  "missing None = True"
| "missing (Some JNull) = True"
| "missing (Some v) = False"

fun first_present :: "jsval option list \<Rightarrow> jsval" where
  "first_present [] = JStr []"
| "first_present (None # vs) = first_present vs"
| "first_present (Some v # vs) = (if v = JNull then first_present vs else v)"

text \<open>More remote engines, records and requests of the examples.\<close>

definition hosts_remote :: remote where
  "hosts_remote =
     example_remote 0
       [[[(''host'', JStr ''web1''), (''count'', JStr ''4'')],
         [(''host'', JStr ''web2''), (''count'', JStr ''1'')],
         [(''host'', JStr []), (''count'', JStr ''7'')],
         [(''host'', JStr ''web1''), (''count'', JStr ''2'')]]]"

definition hosts_query :: "string + SplunkQuery" where
  "hosts_query = Inl ''search index=main | stats count by host''"


definition epoch_record :: jsrecord where
  "epoch_record = [(''_time'', JStr epoch_string), (''host'', JStr ''web1''), (''_raw'', JStr ''event'')]"

definition target_B :: SplunkQuery where
  "target_B = \<lparr>refId = ''B'', queryText = Some ''   '', hide = None\<rparr>"

definition two_target_request :: request where
  "two_target_request =
     \<lparr>range_from = 0, range_to = 3600000, targets = [target_A, target_B], scopedVars = []\<rparr>"

text \<open>
  Deny-lists of plain words. A character is plain when the pattern syntax gives it no
  special meaning; a word matches a text at a position when the characters there agree
  with it up to case; it occurs as a whole word when it matches at a position with a
  word boundary on either side. \<open>word_tokens\<close>, \<open>word_rx\<close> and \<open>words_rx\<close> are the
  tokens and the expression that the constructor of the examples reads from such words.
\<close>

definition plain_char :: "char \<Rightarrow> bool" where
  "plain_char c = (c \<notin> set ''()|*+?.^$[]{}'' \<and> c \<noteq> bslash)"

definition matches_at :: "string \<Rightarrow> string \<Rightarrow> nat \<Rightarrow> bool" where
  "matches_at w s i =
     (i + length w \<le> length s
      \<and> map canonicalize (take (length w) (drop i s)) = map canonicalize w)"

definition occurs_as_word :: "string \<Rightarrow> string \<Rightarrow> bool" where
  "occurs_as_word w s =
     (\<exists>i \<le> length s. at_boundary s i \<and> matches_at w s i \<and> at_boundary s (i + length w))"

fun word_tokens :: "string list \<Rightarrow> token list" where
  "word_tokens [] = []"
| "word_tokens [w] = map TChar w"
| "word_tokens (w # v # ws) = map TChar w @ TBar # word_tokens (v # ws)"

definition word_rx :: "string \<Rightarrow> rx" where
  "word_rx w = mk_seq (map Chr w)"

definition words_rx :: "string list \<Rightarrow> rx" where
  "words_rx ws = (case map word_rx ws of [] \<Rightarrow> Eps | r # rs \<Rightarrow> mk_alt r rs)"

section \<open>Properties\<close>

lemma escapeSplunkValue_concat:
  "escapeSplunkValue s = concat (map (\<lambda>c. if c = dquote \<or> c = bslash then [bslash, c] else [c]) s)"
  by (induction s) simp_all

lemma join_Cons2: "join sep (x # y # ys) = x @ concat (map (\<lambda>z. sep @ z) (y # ys))"
  by (induction ys arbitrary: x y) simp_all

text \<open>
  C3. The formatter maps a null binding to the empty string; a single string to the
  string with a backslash put before every backslash and every double quote, and no
  quote added around it; an array of two or more values to the parenthesised list of
  the quoted, escaped values separated by \<open> OR \<close>; a one-element array to that one
  quoted, escaped value. The value \<open>a"b\<close> becomes \<open>a\"b\<close>.
\<close>

theorem formatter_cases:
  "formatter VNull = []
   \<and> formatter (VStr v) =
       concat (map (\<lambda>c. if c = dquote \<or> c = bslash then [bslash, c] else [c]) v)
   \<and> formatter (VArr (v1 # v2 # vs)) =
       ''('' @ [dquote] @ escapeSplunkValue v1 @ [dquote]
         @ concat (map (\<lambda>w. '' OR '' @ [dquote] @ escapeSplunkValue w @ [dquote]) (v2 # vs))
         @ '')''
   \<and> formatter (VArr [v1]) = [dquote] @ escapeSplunkValue v1 @ [dquote]
   \<and> formatter (VStr [CHR ''a'', dquote, CHR ''b'']) = [CHR ''a'', bslash, dquote, CHR ''b'']"
proof -
  have arr: "formatter (VArr (v1 # v2 # vs)) =
       ''('' @ [dquote] @ escapeSplunkValue v1 @ [dquote]
         @ concat (map (\<lambda>w. '' OR '' @ [dquote] @ escapeSplunkValue w @ [dquote]) (v2 # vs))
         @ '')''"
    by (simp only: formatter.simps Let_def list.map length_Cons join_Cons2)
       (simp add: quoted_def comp_def)
  have ex: "formatter (VStr [CHR ''a'', dquote, CHR ''b'']) = [CHR ''a'', bslash, dquote, CHR ''b'']"
    by (simp add: dquote_def bslash_def)
  show ?thesis
    using arr ex by (simp add: escapeSplunkValue_concat [symmetric] quoted_def)
qed

subsection \<open>Guardrail evaluator\<close>

lemma trim_Nil [simp]: "trim [] = []"
  by (simp add: trim_def)

lemma compileBannedRegex_parts:
  "compileBannedRegex P opts =
     (if banned_parts opts = [] then Inr None
      else (case RegExp_new P (banned_source (banned_parts opts)) ''i'' of
              Inl m \<Rightarrow> Inl (SyntaxError m)
            | Inr re \<Rightarrow> Inr (Some re)))"
  by (simp add: compileBannedRegex_def banned_parts_def Let_def)

text \<open>
  The two checks that come before the deny-list is compiled hold for every
  configuration: a query whose trimmed text is empty is blocked, whatever
  \<open>allowDangerousCommands\<close> and the deny-list are, and with \<open>allowDangerousCommands\<close> set
  every non-empty query is allowed.
\<close>

lemma isQueryDangerous_empty:
  "trim q = [] \<Longrightarrow> isQueryDangerous P q opts = Inr (Some msg_empty)"
  by (simp add: isQueryDangerous_def)

lemma isQueryDangerous_bypass:
  "trim q \<noteq> [] \<Longrightarrow> truthy (allowDangerousCommands opts) \<Longrightarrow> isQueryDangerous P q opts = Inr None"
  by (simp add: isQueryDangerous_def)

text \<open>
  Where the deny-list compiles, a non-empty query with \<open>allowDangerousCommands\<close> unset is
  blocked exactly when the compiled expression tests true on the trimmed text.
\<close>

lemma isQueryDangerous_compiled:
  assumes "deny_list_compiles P opts"
  shows "isQueryDangerous P q opts =
           (if trim q = [] then Inr (Some msg_empty)
            else if \<not> truthy (allowDangerousCommands opts) \<and> deny_list_matches P opts (trim q)
              then Inr (Some msg_risky)
            else Inr None)"
  using assms
  by (auto simp: isQueryDangerous_def compileBannedRegex_parts deny_list_compiles_def
        deny_list_matches_def Let_def split: sum.splits list.splits)

lemma isQueryDangerous_default_list:
  "isQueryDangerous example_platform ''  search index=main | DELETE '' guarded_options
       = Inr (Some msg_risky)
   \<and> isQueryDangerous example_platform ''search deleted=1 | stats count'' guarded_options
       = Inr None"
  by code_simp

subsection \<open>Deny-lists of plain words\<close>

text \<open>
  What a match of the joined pattern means, for the constructor of the examples and a
  deny-list whose lines are plain words: the deny-list compiles, and it matches a text
  exactly when one of the words occurs in it as a whole word, up to case.
\<close>

lemma plain_token_plain: "plain_char c \<Longrightarrow> plain_token c = TChar c"
  by (auto simp: plain_char_def plain_token_def)

lemma tokenize_plain_Cons:
  "plain_char c \<Longrightarrow> tokenize (c # cs) = TChar c # tokenize cs"
  by (cases cs) (auto simp: plain_token_plain plain_char_def)

lemma tokenize_plain_append:
  "\<forall>c \<in> set w. plain_char c \<Longrightarrow> tokenize (w @ rest) = map TChar w @ tokenize rest"
  by (induction w) (simp_all add: tokenize_plain_Cons)

lemma tokenize_bar:
  "tokenize (CHR ''|'' # cs) = TBar # tokenize cs"
  by (cases cs) (auto simp: plain_token_def bslash_def)

lemma tokenize_join:
  assumes "\<forall>w \<in> set ws. \<forall>c \<in> set w. plain_char c"
  shows "tokenize (join ''|'' ws @ rest) = word_tokens ws @ tokenize rest"
  using assms
proof (induction ws rule: word_tokens.induct)
  case 1
  then show ?case by simp
next
  case (2 w)
  then show ?case by (simp add: tokenize_plain_append)
next
  case (3 w v ws)
  then show ?case by (simp add: tokenize_plain_append tokenize_bar)
qed

lemma tokenize_tail: "tokenize ('')'' @ [bslash] @ ''b'') = [TClose, TWordB]"
  by (simp add: plain_token_def escape_token_def bslash_def)

lemma tokenize_source:
  assumes "\<forall>w \<in> set ws. w \<noteq> [] \<and> (\<forall>c \<in> set w. plain_char c)" "ws \<noteq> []"
  shows "tokenize (banned_source ws) = TWordB # TOpen # word_tokens ws @ [TClose, TWordB]"
proof -
  obtain w vs where ws: "ws = w # vs" using assms(2) by (cases ws) auto
  then obtain c cs where w: "w = c # cs" using assms(1) by (cases w) auto
  have pc: "plain_char c" using assms(1) ws w by simp
  obtain rest where j: "join ''|'' ws @ '')'' @ [bslash] @ ''b'' = c # rest"
    using ws w by (cases vs) auto
  have "c \<noteq> CHR ''?''" using pc by (auto simp: plain_char_def)
  then have "tokenize (CHR ''('' # c # rest) = TOpen # tokenize (c # rest)"
    by (simp add: plain_token_def bslash_def)
  then have "tokenize (banned_source ws)
      = TWordB # TOpen # tokenize (join ''|'' ws @ '')'' @ [bslash] @ ''b'')"
    using j by (simp add: banned_source_def escape_token_def)
  also have "tokenize (join ''|'' ws @ '')'' @ [bslash] @ ''b'')
      = word_tokens ws @ tokenize ('')'' @ [bslash] @ ''b'')"
    using assms(1) by (intro tokenize_join) auto
  finally show ?thesis by (simp only: tokenize_tail)
qed

lemma parse_chars:
  "parse (map TChar w @ ts) (alts, items) st
     = parse ts (alts, rev (map (\<lambda>c. (Chr c, KAtom)) w) @ items) st"
  by (induction w arbitrary: items) (simp_all add: push_def)

lemma parse_words:
  "ws \<noteq> [] \<Longrightarrow> parse (word_tokens ws @ ts) (alts, []) st
     = parse ts (rev (map word_rx (butlast ws)) @ alts,
                 rev (map (\<lambda>c. (Chr c, KAtom)) (last ws))) st"
proof (induction ws arbitrary: alts rule: word_tokens.induct)
  case 1
  then show ?case by simp
next
  case (2 w)
  show ?case using parse_chars [of w ts alts "[]" st] by simp
next
  case (3 w v ws)
  have n: "next_alt (alts, rev (map (\<lambda>c. (Chr c, KAtom)) w)) = (word_rx w # alts, [])"
    by (simp add: next_alt_def word_rx_def rev_map comp_def)
  have "parse (word_tokens (w # v # ws) @ ts) (alts, []) st
      = parse (TBar # word_tokens (v # ws) @ ts) (alts, rev (map (\<lambda>c. (Chr c, KAtom)) w)) st"
    using parse_chars [of w "TBar # word_tokens (v # ws) @ ts" alts "[]" st] by simp
  also have "\<dots> = parse (word_tokens (v # ws) @ ts) (word_rx w # alts, []) st"
    by (simp add: n)
  also have "\<dots> = parse ts (rev (map word_rx (butlast (v # ws))) @ word_rx w # alts,
                 rev (map (\<lambda>c. (Chr c, KAtom)) (last (v # ws)))) st"
    by (rule 3) simp
  finally show ?case by simp
qed

lemma close_words:
  "ws \<noteq> [] \<Longrightarrow> close_group (rev (map word_rx (butlast ws)),
                   rev (map (\<lambda>c. (Chr c, KAtom)) (last ws))) = words_rx ws"
proof -
  assume ne: "ws \<noteq> []"
  have "rev (mk_seq (rev (map fst (rev (map (\<lambda>c. (Chr c, KAtom)) (last ws)))))
               # rev (map word_rx (butlast ws)))
      = map word_rx (butlast ws @ [last ws])"
    by (simp add: word_rx_def rev_map comp_def)
  also have "\<dots> = map word_rx ws"
    using ne by simp
  finally show ?thesis
    by (simp add: close_group_def words_rx_def)
qed

lemma parse_source:
  assumes "\<forall>w \<in> set ws. w \<noteq> [] \<and> (\<forall>c \<in> set w. plain_char c)" "ws \<noteq> []"
  shows "parse_pattern (banned_source ws) = Parsed (Cat WordB (Cat (words_rx ws) WordB))"
proof -
  have "parse (TWordB # TOpen # word_tokens ws @ [TClose, TWordB]) ([], []) []
      = parse (word_tokens ws @ [TClose, TWordB]) ([], []) [([], [(WordB, KAssertion)])]"
    by (simp add: push_def)
  also have "\<dots> = parse [TClose, TWordB]
        (rev (map word_rx (butlast ws)) @ [], rev (map (\<lambda>c. (Chr c, KAtom)) (last ws)))
        [([], [(WordB, KAssertion)])]"
    by (rule parse_words [OF assms(2)])
  also have "\<dots> = Parsed (Cat WordB (Cat (words_rx ws) WordB))"
    using close_words [OF assms(2)] by (simp add: push_def close_group_def)
  finally show ?thesis
    by (simp add: parse_pattern_def tokenize_source [OF assms])
qed

lemma set_ends_Cat:
  "set (ends (Cat a b) s i) = (\<Union>j \<in> set (ends a s i). set (ends b s j))"
  by simp

lemma set_ends_Or:
  "set (ends (Or a b) s i) = set (ends a s i) \<union> set (ends b s i)"
  by simp

lemma matches_at_Nil: "matches_at [] s i = (i \<le> length s)"
  by (simp add: matches_at_def)

lemma matches_at_Cons:
  "matches_at (c # cs) s i
     = (i < length s \<and> canonicalize (s ! i) = canonicalize c \<and> matches_at cs s (Suc i))"
proof (cases "i < length s")
  case False
  then show ?thesis by (simp add: matches_at_def)
next
  case True
  then have d: "drop i s = s ! i # drop (Suc i) s"
    by (simp add: Cons_nth_drop_Suc)
  show ?thesis
    using True by (auto simp: matches_at_def d)
qed

lemma set_ends_word:
  "i \<le> length s \<Longrightarrow> set (ends (word_rx w) s i) = (if matches_at w s i then {i + length w} else {})"
proof (induction w arbitrary: i)
  case Nil
  then show ?case by (simp add: word_rx_def matches_at_Nil)
next
  case (Cons c cs)
  show ?case
  proof (cases cs)
    case Nil
    then show ?thesis
      using Cons.prems by (auto simp: word_rx_def matches_at_Cons matches_at_Nil)
  next
    case (Cons d ds)
    have w: "word_rx (c # cs) = Cat (Chr c) (word_rx cs)"
      using Cons by (simp add: word_rx_def)
    show ?thesis
    proof (cases "i < length s \<and> canonicalize (s ! i) = canonicalize c")
      case True
      then have "set (ends (word_rx (c # cs)) s i) = set (ends (word_rx cs) s (Suc i))"
        unfolding w set_ends_Cat by simp
      also have "\<dots> = (if matches_at cs s (Suc i) then {Suc i + length cs} else {})"
        using True by (intro Cons.IH) simp
      finally show ?thesis using True by (simp add: matches_at_Cons)
    next
      case False
      then have "set (ends (word_rx (c # cs)) s i) = {}"
        unfolding w set_ends_Cat by auto
      then show ?thesis using False by (auto simp: matches_at_Cons)
    qed
  qed
qed

lemma set_ends_alt:
  "set (ends (mk_alt r rs) s i) = (\<Union>q \<in> set (r # rs). set (ends q s i))"
  by (induction rs arbitrary: r) auto

lemma set_ends_words:
  assumes "ws \<noteq> []" "i \<le> length s"
  shows "set (ends (words_rx ws) s i) = {i + length w | w. w \<in> set ws \<and> matches_at w s i}"
proof -
  obtain w vs where ws: "ws = w # vs" using assms(1) by (cases ws) auto
  have "set (ends (words_rx ws) s i) = (\<Union>q \<in> set (map word_rx ws). set (ends q s i))"
    unfolding words_rx_def ws by (simp add: set_ends_alt)
  also have "\<dots> = (\<Union>w \<in> set ws. set (ends (word_rx w) s i))"
    by simp
  also have "\<dots> = {i + length w | w. w \<in> set ws \<and> matches_at w s i}"
    using assms(2) by (auto simp: set_ends_word split: if_splits)
  finally show ?thesis .
qed

lemma matches_at_bound: "matches_at w s i \<Longrightarrow> i + length w \<le> length s"
  by (simp add: matches_at_def)

lemma rx_test_iff: "rx_test r s = (\<exists>i \<le> length s. ends r s i \<noteq> [])"
proof -
  have "rx_test r s = (\<exists>i \<in> set [0..<Suc (length s)]. ends r s i \<noteq> [])"
    by (simp only: rx_test_def list_ex_iff)
  also have "\<dots> = (\<exists>i. i < Suc (length s) \<and> ends r s i \<noteq> [])"
    by (simp only: set_upt atLeastLessThan_iff bex_simps Bex_def) simp
  also have "\<dots> = (\<exists>i \<le> length s. ends r s i \<noteq> [])"
    by (simp only: less_Suc_eq_le)
  finally show ?thesis .
qed

lemma test_words:
  assumes "ws \<noteq> []"
  shows "rx_test (Cat WordB (Cat (words_rx ws) WordB)) s = (\<exists>w \<in> set ws. occurs_as_word w s)"
proof -
  have e: "\<And>i. i \<le> length s \<Longrightarrow>
      (ends (Cat WordB (Cat (words_rx ws) WordB)) s i \<noteq> [])
      = (at_boundary s i \<and> (\<exists>w \<in> set ws. matches_at w s i \<and> at_boundary s (i + length w)))"
  proof -
    fix i assume i: "i \<le> length s"
    have "set (ends (Cat WordB (Cat (words_rx ws) WordB)) s i)
        = (if at_boundary s i
           then {j. j \<in> set (ends (words_rx ws) s i) \<and> at_boundary s j} else {})"
      unfolding set_ends_Cat by auto
    also have "\<dots> = (if at_boundary s i
           then {i + length w | w. w \<in> set ws \<and> matches_at w s i \<and> at_boundary s (i + length w)}
           else {})"
      unfolding set_ends_words [OF assms i] by auto
    finally have "(set (ends (Cat WordB (Cat (words_rx ws) WordB)) s i) \<noteq> {})
        = (at_boundary s i \<and> (\<exists>w \<in> set ws. matches_at w s i \<and> at_boundary s (i + length w)))"
      by auto
    then show "(ends (Cat WordB (Cat (words_rx ws) WordB)) s i \<noteq> [])
      = (at_boundary s i \<and> (\<exists>w \<in> set ws. matches_at w s i \<and> at_boundary s (i + length w)))"
      by (simp only: set_empty)
  qed
  have "rx_test (Cat WordB (Cat (words_rx ws) WordB)) s
      = (\<exists>i \<le> length s. ends (Cat WordB (Cat (words_rx ws) WordB)) s i \<noteq> [])"
    by (rule rx_test_iff)
  also have "\<dots> = (\<exists>i \<le> length s. at_boundary s i
        \<and> (\<exists>w \<in> set ws. matches_at w s i \<and> at_boundary s (i + length w)))"
    using e by blast
  also have "\<dots> = (\<exists>w \<in> set ws. occurs_as_word w s)"
    by (auto simp: occurs_as_word_def)
  finally show ?thesis .
qed

lemma word_deny_list:
  assumes "banned_parts opts \<noteq> []"
    and "\<forall>w \<in> set (banned_parts opts). \<forall>c \<in> set w. plain_char c"
  shows "deny_list_compiles example_platform opts
     \<and> deny_list_matches example_platform opts s
         = (\<exists>w \<in> set (banned_parts opts). occurs_as_word w s)"
proof -
  have ne: "\<forall>w \<in> set (banned_parts opts). w \<noteq> [] \<and> (\<forall>c \<in> set w. plain_char c)"
    using assms(2) by (auto simp: banned_parts_def)
  have p: "RegExp_new example_platform (banned_source (banned_parts opts)) ''i''
      = Inr (rx_test (Cat WordB (Cat (words_rx (banned_parts opts)) WordB)))"
    by (simp add: example_platform_def RegExp_fragment_def parse_source [OF ne assms(1)])
  obtain w ws where b: "banned_parts opts = w # ws"
    using assms(1) by (cases "banned_parts opts") auto
  show ?thesis
    using p test_words [OF assms(1), of s]
    by (simp add: deny_list_compiles_def deny_list_matches_def b)
qed

text \<open>
  So for a deny-list of plain words the verdict is the one C2 gives: blocked when the
  trimmed text is empty; otherwise blocked exactly when \<open>allowDangerousCommands\<close> is
  unset and one of the words occurs in the trimmed text as a whole word, up to case;
  otherwise allowed.
\<close>

lemma isQueryDangerous_words:
  assumes "\<forall>w \<in> set (banned_parts opts). \<forall>c \<in> set w. plain_char c"
  shows "isQueryDangerous example_platform q opts =
           (if trim q = [] then Inr (Some msg_empty)
            else if \<not> truthy (allowDangerousCommands opts)
                    \<and> (\<exists>w \<in> set (banned_parts opts). occurs_as_word w (trim q))
              then Inr (Some msg_risky)
            else Inr None)"
proof (cases "banned_parts opts = []")
  case True
  then show ?thesis
    by (simp add: isQueryDangerous_def compileBannedRegex_parts)
next
  case False
  have c: "deny_list_compiles example_platform opts"
    and m: "deny_list_matches example_platform opts (trim q)
         = (\<exists>w \<in> set (banned_parts opts). occurs_as_word w (trim q))"
    using word_deny_list [OF False assms, of "trim q"] by simp_all
  show ?thesis
    unfolding isQueryDangerous_compiled [OF c] m by (rule refl)
qed

text \<open>
  C2. The claim gives the evaluator a verdict, blocked or allowed, for every query under
  every configuration. The deny-list lines are joined into one pattern unescaped, and
  the constructor's exception is caught nowhere: with the deny-list whose only line is
  an opening parenthesis, \<open>allowDangerousCommands\<close> unset and the non-empty query \<open>x\<close>,
  the evaluator returns neither verdict; the \<open>SyntaxError\<close> leaves it.
\<close>

theorem isQueryDangerous_syntax_error:
  "bannedCommands broken_options = Some ''(''
   \<and> allowDangerousCommands broken_options = None
   \<and> trim ''x'' = ''x''
   \<and> isQueryDangerous example_platform ''x'' broken_options
       = Inl (SyntaxError ''Invalid regular expression'')"
  by code_simp

subsection \<open>Job controller\<close>

declare waitForJob_loop.simps [simp del]

lemma isJobDone_payload:
  "isJobDone (Inr d) =
     Inr (status_flag d = Some True
          \<or> status_state d \<in> {Some ''DONE'', Some ''PAUSED'', Some ''FINALIZING''})"
  by (cases "status_flag d") (auto simp: isJobDone_def status_flag_def status_state_def Let_def)

text \<open>The loop test in whole numbers: \<open>i < maxPolls\<close> holds for the counters below the
  budget rounded up.\<close>

lemma within_budget: "(of_nat i < (mp :: rat)) = (i < nat \<lceil>mp\<rceil>)"
proof -
  have "(of_nat i < mp) = (int i < \<lceil>mp\<rceil>)"
    by (simp add: less_ceiling_iff)
  also have "\<dots> = (i < nat \<lceil>mp\<rceil>)"
    by linarith
  finally show ?thesis .
qed

lemma loop_timeout:
  "i \<le> nat \<lceil>mp\<rceil>
   \<Longrightarrow> (\<And>n. i \<le> n \<Longrightarrow> n < nat \<lceil>mp\<rceil> \<Longrightarrow> isJobDone (status_response R n) = Inr False)
   \<Longrightarrow> waitForJob_loop R pm mp i sl =
        \<lparr>outcome = Inl (Error msg_poll_timeout), checks = nat \<lceil>mp\<rceil>,
         sleeps = sl @ replicate (nat \<lceil>mp\<rceil> - i) pm\<rparr>"
proof (induction R pm mp i sl rule: waitForJob_loop.induct)
  case (1 R pm mp i sl)
  show ?case
  proof (cases "i < nat \<lceil>mp\<rceil>")
    case False
    then have nb: "\<not> of_nat i < mp" by (simp add: within_budget)
    have eq: "nat \<lceil>mp\<rceil> = i" using False 1(2) by simp
    show ?thesis
      unfolding eq using nb by (simp add: waitForJob_loop.simps [of R pm mp i])
  next
    case True
    then have b: "of_nat i < mp" by (simp add: within_budget)
    have nd: "isJobDone (status_response R i) = Inr False"
      using 1(3) True by simp
    have ih: "waitForJob_loop R pm mp (Suc i) (sl @ [pm]) =
        \<lparr>outcome = Inl (Error msg_poll_timeout), checks = nat \<lceil>mp\<rceil>,
         sleeps = (sl @ [pm]) @ replicate (nat \<lceil>mp\<rceil> - Suc i) pm\<rparr>"
      using 1(1) [OF b nd] 1(3) True by simp
    have "nat \<lceil>mp\<rceil> - i = Suc (nat \<lceil>mp\<rceil> - Suc i)"
      using True by arith
    then have r: "pm # replicate (nat \<lceil>mp\<rceil> - Suc i) pm = replicate (nat \<lceil>mp\<rceil> - i) pm"
      by simp
    show ?thesis
      using b nd ih r by (simp add: waitForJob_loop.simps [of R pm mp i])
  qed
qed

lemma loop_ends_at:
  "i \<le> k \<Longrightarrow> k < nat \<lceil>mp\<rceil>
   \<Longrightarrow> isJobDone (status_response R k) \<noteq> Inr False
   \<Longrightarrow> (\<And>n. i \<le> n \<Longrightarrow> n < k \<Longrightarrow> isJobDone (status_response R n) = Inr False)
   \<Longrightarrow> waitForJob_loop R pm mp i sl =
        \<lparr>outcome = (case isJobDone (status_response R k) of Inl e \<Rightarrow> Inl e | Inr b \<Rightarrow> Inr ()),
         checks = Suc k, sleeps = sl @ replicate (k - i) pm\<rparr>"
proof (induction R pm mp i sl rule: waitForJob_loop.induct)
  case (1 R pm mp i sl)
  have b: "of_nat i < mp" using 1(2,3) by (simp add: within_budget)
  show ?case
  proof (cases "i = k")
    case True
    have "waitForJob_loop R pm mp i sl =
        \<lparr>outcome = (case isJobDone (status_response R i) of Inl e \<Rightarrow> Inl e | Inr b \<Rightarrow> Inr ()),
         checks = Suc i, sleeps = sl @ replicate (i - i) pm\<rparr>"
      using b 1(4) [unfolded True [symmetric]]
      by (auto simp: waitForJob_loop.simps [of R pm mp i] split: sum.splits)
    then show ?thesis
      unfolding True .
  next
    case False
    then have less: "i < k" using 1(2) by simp
    have nd: "isJobDone (status_response R i) = Inr False"
      using 1(5) [of i] less by simp
    have ih: "waitForJob_loop R pm mp (Suc i) (sl @ [pm]) =
        \<lparr>outcome = (case isJobDone (status_response R k) of Inl e \<Rightarrow> Inl e | Inr b \<Rightarrow> Inr ()),
         checks = Suc k, sleeps = (sl @ [pm]) @ replicate (k - Suc i) pm\<rparr>"
    proof (rule 1(1) [OF b nd])
      show "Suc i \<le> k" using less by simp
      show "k < nat \<lceil>mp\<rceil>" by (rule 1(3))
      show "isJobDone (status_response R k) \<noteq> Inr False" by (rule 1(4))
      show "\<And>n. Suc i \<le> n \<Longrightarrow> n < k \<Longrightarrow> isJobDone (status_response R n) = Inr False"
        using 1(5) by simp
    qed simp
    have "k - i = Suc (k - Suc i)"
      using less by arith
    then have r: "pm # replicate (k - Suc i) pm = replicate (k - i) pm"
      by simp
    show ?thesis
      using b nd ih r by (simp add: waitForJob_loop.simps [of R pm mp i])
  qed
qed

lemma loop_checks:
  "i \<le> nat \<lceil>mp\<rceil> \<Longrightarrow> i \<le> checks (waitForJob_loop R pm mp i sl)
     \<and> checks (waitForJob_loop R pm mp i sl) \<le> nat \<lceil>mp\<rceil>
     \<and> (i < nat \<lceil>mp\<rceil> \<longrightarrow> Suc i \<le> checks (waitForJob_loop R pm mp i sl))"
proof (induction R pm mp i sl rule: waitForJob_loop.induct)
  case (1 R pm mp i sl)
  show ?case
  proof (cases "i < nat \<lceil>mp\<rceil>")
    case False
    then have "checks (waitForJob_loop R pm mp i sl) = i"
      by (simp add: waitForJob_loop.simps [of R pm mp i] within_budget)
    then show ?thesis using False 1(2) by simp
  next
    case True
    then have b: "of_nat i < mp" by (simp add: within_budget)
    show ?thesis
    proof (cases "isJobDone (status_response R i)")
      case (Inl e)
      then show ?thesis using True b by (simp add: waitForJob_loop.simps [of R pm mp i])
    next
      case (Inr d)
      show ?thesis
      proof (cases d)
        case True
        then show ?thesis
          using Inr b \<open>i < nat \<lceil>mp\<rceil>\<close> by (simp add: waitForJob_loop.simps [of R pm mp i])
      next
        case False
        then have nd: "isJobDone (status_response R i) = Inr False" using Inr by simp
        have "Suc i \<le> checks (waitForJob_loop R pm mp (Suc i) (sl @ [pm]))
              \<and> checks (waitForJob_loop R pm mp (Suc i) (sl @ [pm])) \<le> nat \<lceil>mp\<rceil>"
          using 1(1) [OF b nd] \<open>i < nat \<lceil>mp\<rceil>\<close> by simp
        then show ?thesis
          using nd b by (simp add: waitForJob_loop.simps [of R pm mp i])
      qed
    qed
  qed
qed


lemma waitForJob_unfold:
  "waitForJob opts R = waitForJob_loop R (effective_pollMs opts) (effective_maxPolls opts) 0 []"
  by (simp add: waitForJob_def effective_pollMs_def effective_maxPolls_def Let_def)

lemma poll_limit_whole:
  "poll_limit (opts\<lparr>maxPolls := Some (of_nat (Suc m))\<rparr>) = Suc m"
  "poll_limit (opts\<lparr>maxPolls := None\<rparr>) = 30"
  "1 \<le> poll_limit opts"
proof -
  have "max 1 (of_nat (Suc m) :: rat) = of_nat (Suc m)"
    by (simp add: max_def)
  then have "\<lceil>max 1 (of_nat (Suc m) :: rat)\<rceil> = int (Suc m)"
    by (simp only: ceiling_of_nat)
  then show "poll_limit (opts\<lparr>maxPolls := Some (of_nat (Suc m))\<rparr>) = Suc m"
    by (simp add: poll_limit_def effective_maxPolls_def del: of_nat_Suc)
  show "poll_limit (opts\<lparr>maxPolls := None\<rparr>) = 30"
    by (simp add: poll_limit_def effective_maxPolls_def)
  have "(1 :: rat) \<le> effective_maxPolls opts"
    by (simp add: effective_maxPolls_def)
  then have "of_nat 0 < effective_maxPolls opts"
    by simp
  then have "0 < nat \<lceil>effective_maxPolls opts\<rceil>"
    by (simp only: within_budget)
  then show "1 \<le> poll_limit opts"
    unfolding poll_limit_def by arith
qed

text \<open>The three ways a wait ends, and the first sleep.\<close>

lemma stalled_run:
  assumes "\<forall>n < poll_limit opts. isJobDone (status_response R n) = Inr False"
  shows "waitForJob opts R =
     \<lparr>outcome = Inl (Error msg_poll_timeout), checks = poll_limit opts,
      sleeps = replicate (poll_limit opts) (effective_pollMs opts)\<rparr>"
  using loop_timeout [of 0 "effective_maxPolls opts" R "effective_pollMs opts" "[]"] assms
  by (simp add: waitForJob_unfold poll_limit_def)

lemma ended_run:
  assumes "k < poll_limit opts" "isJobDone (status_response R k) \<noteq> Inr False"
    "\<forall>n < k. isJobDone (status_response R n) = Inr False"
  shows "waitForJob opts R =
     \<lparr>outcome = (case isJobDone (status_response R k) of Inl e \<Rightarrow> Inl e | Inr b \<Rightarrow> Inr ()),
      checks = Suc k, sleeps = replicate k (effective_pollMs opts)\<rparr>"
proof -
  have "waitForJob_loop R (effective_pollMs opts) (effective_maxPolls opts) 0 [] =
        \<lparr>outcome = (case isJobDone (status_response R k) of Inl e \<Rightarrow> Inl e | Inr b \<Rightarrow> Inr ()),
         checks = Suc k, sleeps = [] @ replicate (k - 0) (effective_pollMs opts)\<rparr>"
    by (rule loop_ends_at) (use assms in \<open>auto simp: poll_limit_def\<close>)
  then show ?thesis by (simp add: waitForJob_unfold)
qed


text \<open>
  C4, as the code has it. \<open>waitForJob\<close> performs at most \<open>N\<close> status checks, \<open>N\<close> being
  the configured \<open>maxPolls\<close> (30 when unset) raised to at least 1 and rounded up to a
  whole number; for a whole budget of at least 1 this is \<open>maxPolls\<close> itself. A check
  whose request returns a payload reports done exactly when the payload carries a true
  completion flag or the dispatch state \<open>DONE\<close>, \<open>PAUSED\<close> or \<open>FINALIZING\<close>. If the
  first \<open>N\<close> requests return payloads none of which reports done, exactly \<open>N\<close> checks
  occur and \<open>waitForJob\<close> fails with the poll-timeout error. If one of the first \<open>N\<close>
  checks reports done and the earlier ones returned payloads that do not, \<open>waitForJob\<close>
  succeeds with that check as its last. If instead the transport rejects one of the
  first \<open>N\<close> requests, the earlier ones not reporting done, \<open>waitForJob\<close> fails with the
  transport's error at that check.
\<close>

theorem waitForJob_polls:
  "checks (waitForJob opts R) \<le> poll_limit opts
   \<and> poll_limit (opts\<lparr>maxPolls := Some (of_nat (Suc m))\<rparr>) = Suc m
   \<and> isJobDone (Inr d) =
       Inr (status_flag d = Some True
            \<or> status_state d \<in> {Some ''DONE'', Some ''PAUSED'', Some ''FINALIZING''})
   \<and> ((\<forall>n < poll_limit opts. isJobDone (status_response R n) = Inr False)
        \<longrightarrow> checks (waitForJob opts R) = poll_limit opts
            \<and> outcome (waitForJob opts R) = Inl (Error msg_poll_timeout))
   \<and> (\<forall>k < poll_limit opts.
         isJobDone (status_response R k) = Inr True
         \<and> (\<forall>n < k. isJobDone (status_response R n) = Inr False)
         \<longrightarrow> outcome (waitForJob opts R) = Inr () \<and> checks (waitForJob opts R) = Suc k)
   \<and> (\<forall>k < poll_limit opts. \<forall>e.
         isJobDone (status_response R k) = Inl e
         \<and> (\<forall>n < k. isJobDone (status_response R n) = Inr False)
         \<longrightarrow> outcome (waitForJob opts R) = Inl e \<and> checks (waitForJob opts R) = Suc k)"
proof -
  let ?N = "poll_limit opts"
  have N: "?N = nat \<lceil>effective_maxPolls opts\<rceil>"
    by (simp add: poll_limit_def)
  have a: "checks (waitForJob opts R) \<le> ?N"
    using loop_checks [of 0 "effective_maxPolls opts" R "effective_pollMs opts" "[]"]
    by (simp add: waitForJob_unfold N)
  have b: "poll_limit (opts\<lparr>maxPolls := Some (of_nat (Suc m))\<rparr>) = Suc m"
    by (rule poll_limit_whole)
  have c: "(\<forall>n < ?N. isJobDone (status_response R n) = Inr False)
        \<longrightarrow> checks (waitForJob opts R) = ?N
            \<and> outcome (waitForJob opts R) = Inl (Error msg_poll_timeout)"
    using stalled_run [of opts R] by simp
  have d: "\<forall>k < ?N.
         isJobDone (status_response R k) = Inr True
         \<and> (\<forall>n < k. isJobDone (status_response R n) = Inr False)
         \<longrightarrow> outcome (waitForJob opts R) = Inr () \<and> checks (waitForJob opts R) = Suc k"
  proof (intro allI impI)
    fix k
    assume k: "k < ?N"
      and h: "isJobDone (status_response R k) = Inr True
         \<and> (\<forall>n < k. isJobDone (status_response R n) = Inr False)"
    show "outcome (waitForJob opts R) = Inr () \<and> checks (waitForJob opts R) = Suc k"
      using ended_run [of k opts R] k h by simp
  qed
  have e: "\<forall>k < ?N. \<forall>e.
         isJobDone (status_response R k) = Inl e
         \<and> (\<forall>n < k. isJobDone (status_response R n) = Inr False)
         \<longrightarrow> outcome (waitForJob opts R) = Inl e \<and> checks (waitForJob opts R) = Suc k"
  proof (intro allI impI)
    fix k e
    assume k: "k < ?N"
      and h: "isJobDone (status_response R k) = Inl e
         \<and> (\<forall>n < k. isJobDone (status_response R n) = Inr False)"
    show "outcome (waitForJob opts R) = Inl e \<and> checks (waitForJob opts R) = Suc k"
      using ended_run [of k opts R] k h by simp
  qed
  show ?thesis
    by (intro conjI) (fact a b c d e isJobDone_payload)+
qed

lemma example_statuses:
  "isJobDone (Inr running_status) = Inr False" "isJobDone (Inr done_status) = Inr True"
  by (simp_all add: isJobDone_def running_status_def done_status_def)

lemma example_limits:
  "poll_limit three_polls = 3" "poll_limit zero_polls = 1" "poll_limit half_polls = 3"
  "poll_limit zero_poll_settings = 1"
proof -
  have "\<lceil>5 / 2 :: rat\<rceil> = 3"
    by (simp add: ceiling_eq_iff)
  then show "poll_limit half_polls = 3"
    by (simp add: poll_limit_def effective_maxPolls_def half_polls_def no_options_def)
qed (simp_all add: poll_limit_def effective_maxPolls_def three_polls_def zero_polls_def
      zero_poll_settings_def no_options_def)

theorem waitForJob_polls_witness:
  "poll_limit three_polls = 3
   \<and> isJobDone (status_response (example_remote 5 []) 0) = Inr False
   \<and> isJobDone (status_response (example_remote 5 []) 1) = Inr False
   \<and> isJobDone (status_response (example_remote 5 []) 2) = Inr False
   \<and> checks (waitForJob three_polls (example_remote 5 [])) = 3
   \<and> outcome (waitForJob three_polls (example_remote 5 [])) = Inl (Error msg_poll_timeout)
   \<and> isJobDone (status_response (example_remote 2 []) 0) = Inr False
   \<and> isJobDone (status_response (example_remote 2 []) 1) = Inr False
   \<and> isJobDone (status_response (example_remote 2 []) 2) = Inr True
   \<and> outcome (waitForJob three_polls (example_remote 2 [])) = Inr ()
   \<and> checks (waitForJob three_polls (example_remote 2 [])) = 3
   \<and> isJobDone (status_response rejecting_remote 0) = Inl (Rejected (Some ''Bad Gateway''))
   \<and> outcome (waitForJob three_polls rejecting_remote) = Inl (Rejected (Some ''Bad Gateway''))
   \<and> checks (waitForJob three_polls rejecting_remote) = 1"
proof -
  note m = example_limits(1)
  note r = example_statuses(1) and d = example_statuses(2)
  have h1: "\<forall>n < poll_limit three_polls.
      isJobDone (status_response (example_remote 5 []) n) = Inr False"
    by (simp add: m example_remote_def r)
  have h2: "(2::nat) < poll_limit three_polls"
    by (simp add: m)
  have h3: "isJobDone (status_response (example_remote 2 []) 2) = Inr True"
    by (simp add: example_remote_def d)
  have h4: "\<forall>n < 2. isJobDone (status_response (example_remote 2 []) n) = Inr False"
    by (simp add: example_remote_def r)
  have h5: "(0::nat) < poll_limit three_polls"
    by (simp add: m)
  have h6: "isJobDone (status_response rejecting_remote 0) = Inl (Rejected (Some ''Bad Gateway''))"
    by (simp add: rejecting_remote_def isJobDone_def)
  have A: "checks (waitForJob three_polls (example_remote 5 [])) = poll_limit three_polls
      \<and> outcome (waitForJob three_polls (example_remote 5 [])) = Inl (Error msg_poll_timeout)"
    using waitForJob_polls [of three_polls "example_remote 5 []"] h1 by blast
  have B: "outcome (waitForJob three_polls (example_remote 2 [])) = Inr ()
      \<and> checks (waitForJob three_polls (example_remote 2 [])) = Suc 2"
    using waitForJob_polls [of three_polls "example_remote 2 []"] h2 h3 h4 by blast
  have C: "outcome (waitForJob three_polls rejecting_remote) = Inl (Rejected (Some ''Bad Gateway''))
      \<and> checks (waitForJob three_polls rejecting_remote) = Suc 0"
    using waitForJob_polls [of three_polls rejecting_remote] h5 h6 by blast
  show ?thesis
    using A B C h1 h3 h4 h6 m by simp
qed

text \<open>
  C4 as stated fails in three ways. With \<open>maxPolls\<close> configured as 0 and a job that
  never reports done, one status check occurs, not none, before the poll-timeout. With
  \<open>maxPolls\<close> two and a half, three checks occur. And when the transport rejects the
  first status request, no check reports done, yet one check occurs where \<open>maxPolls\<close>
  is 3, and the failure is the transport's error, not the poll-timeout.
\<close>

theorem waitForJob_polls_counterexample:
  "maxPolls zero_polls = Some 0
   \<and> checks (waitForJob zero_polls (example_remote 5 [])) = 1
   \<and> outcome (waitForJob zero_polls (example_remote 5 [])) = Inl (Error msg_poll_timeout)
   \<and> maxPolls half_polls = Some (5 / 2)
   \<and> checks (waitForJob half_polls (example_remote 5 [])) = 3
   \<and> maxPolls three_polls = Some 3
   \<and> checks (waitForJob three_polls rejecting_remote) = 1
   \<and> outcome (waitForJob three_polls rejecting_remote) = Inl (Rejected (Some ''Bad Gateway''))"
proof -
  have s: "\<And>opts. poll_limit opts \<le> 3 \<Longrightarrow>
      \<forall>n < poll_limit opts. isJobDone (status_response (example_remote 5 []) n) = Inr False"
    by (simp add: example_remote_def example_statuses)
  have z: "checks (waitForJob zero_polls (example_remote 5 [])) = 1
      \<and> outcome (waitForJob zero_polls (example_remote 5 [])) = Inl (Error msg_poll_timeout)"
    using stalled_run [OF s, of zero_polls] by (simp add: example_limits)
  have h: "checks (waitForJob half_polls (example_remote 5 [])) = 3"
    using stalled_run [OF s, of half_polls] by (simp add: example_limits)
  have r: "checks (waitForJob three_polls rejecting_remote) = 1
      \<and> outcome (waitForJob three_polls rejecting_remote) = Inl (Rejected (Some ''Bad Gateway''))"
    using ended_run [of 0 three_polls rejecting_remote]
    by (simp add: example_limits rejecting_remote_def isJobDone_def)
  show ?thesis
    using z h r by (simp add: zero_polls_def half_polls_def three_polls_def no_options_def)
qed

subsection \<open>Result paginator\<close>

lemma page_body_stop:
  assumes "fetch_ok R (fetches st)" "stops_at ps mr R (fetches st)"
    "totalAdded st = rows_before R (fetches st)"
  shows "\<exists>st'. page_body P R ps mr st = Inr (False, st')
     \<and> requests st' = requests st @ [(ps, offset st)]
     \<and> table st' = table st @ map (mapRow P) (page_of R (fetches st))
     \<and> fetches st' = Suc (fetches st)
     \<and> totalAdded st' = rows_before R (Suc (fetches st))"
  using assms
  by (auto simp: page_body_def fetchResults_def fetch_ok_def page_of_def stops_at_def Let_def
      split: sum.splits)

lemma page_body_continue:
  assumes "fetch_ok R (fetches st)" "\<not> stops_at ps mr R (fetches st)"
    "totalAdded st = rows_before R (fetches st)" "offset st = rows_before R (fetches st)"
  shows "\<exists>st'. page_body P R ps mr st = Inr (True, st')
     \<and> requests st' = requests st @ [(ps, offset st)]
     \<and> table st' = table st @ map (mapRow P) (page_of R (fetches st))
     \<and> fetches st' = Suc (fetches st)
     \<and> totalAdded st' = rows_before R (Suc (fetches st))
     \<and> offset st' = rows_before R (Suc (fetches st))"
  using assms
  by (auto simp: page_body_def fetchResults_def fetch_ok_def page_of_def stops_at_def Let_def
      split: sum.splits)

lemma page_loop_run:
  assumes "fetches st = n" "n \<le> k"
    "offset st = rows_before R n" "totalAdded st = rows_before R n"
    "\<And>j. n \<le> j \<Longrightarrow> j \<le> k \<Longrightarrow> fetch_ok R j"
    "stops_at ps mr R k"
    "\<And>j. n \<le> j \<Longrightarrow> j < k \<Longrightarrow> \<not> stops_at ps mr R j"
  shows "\<exists>st'. page_loop P R ps mr st = Some (Inr st')
     \<and> requests st' = requests st @ map (\<lambda>j. (ps, rows_before R j)) [n..<Suc k]
     \<and> table st' = table st @ concat (map (\<lambda>j. map (mapRow P) (page_of R j)) [n..<Suc k])
     \<and> fetches st' = Suc k
     \<and> totalAdded st' = rows_before R (Suc k)"
  using assms
proof (induction "k - n" arbitrary: n st)
  case 0
  then have nk: "n = k" by simp
  obtain st' where b: "page_body P R ps mr st = Inr (False, st')"
      "requests st' = requests st @ [(ps, offset st)]"
      "table st' = table st @ map (mapRow P) (page_of R (fetches st))"
      "fetches st' = Suc (fetches st)"
      "totalAdded st' = rows_before R (Suc (fetches st))"
    using page_body_stop [of R st ps mr P] 0 nk by auto
  have "page_loop P R ps mr st = Some (Inr st')"
    by (subst page_loop.simps) (simp add: b(1))
  then show ?case using b 0(2,4) nk by simp
next
  case (Suc d)
  then have lt: "n < k" by simp
  obtain st1 where b: "page_body P R ps mr st = Inr (True, st1)"
      "requests st1 = requests st @ [(ps, offset st)]"
      "table st1 = table st @ map (mapRow P) (page_of R (fetches st))"
      "fetches st1 = Suc (fetches st)"
      "totalAdded st1 = rows_before R (Suc (fetches st))"
      "offset st1 = rows_before R (Suc (fetches st))"
    using page_body_continue [of R st ps mr P] Suc(3-9) lt by auto
  have ih: "\<exists>st'. page_loop P R ps mr st1 = Some (Inr st')
     \<and> requests st' = requests st1 @ map (\<lambda>j. (ps, rows_before R j)) [Suc n..<Suc k]
     \<and> table st' = table st1 @ concat (map (\<lambda>j. map (mapRow P) (page_of R j)) [Suc n..<Suc k])
     \<and> fetches st' = Suc k
     \<and> totalAdded st' = rows_before R (Suc k)"
  proof (rule Suc(1))
    show "d = k - Suc n" using Suc(2) by simp
    show "fetches st1 = Suc n" using b(4) Suc(3) by simp
    show "Suc n \<le> k" using lt by simp
    show "offset st1 = rows_before R (Suc n)" using b(6) Suc(3) by simp
    show "totalAdded st1 = rows_before R (Suc n)" using b(5) Suc(3) by simp
    show "\<And>j. Suc n \<le> j \<Longrightarrow> j \<le> k \<Longrightarrow> fetch_ok R j" using Suc(7) by simp
    show "stops_at ps mr R k" by (rule Suc(8))
    show "\<And>j. Suc n \<le> j \<Longrightarrow> j < k \<Longrightarrow> \<not> stops_at ps mr R j" using Suc(9) by simp
  qed
  have step: "page_loop P R ps mr st = page_loop P R ps mr st1"
    by (subst page_loop.simps) (simp add: b(1))
  have up: "[n..<Suc k] = n # [Suc n..<Suc k]"
    using lt by (simp add: upt_conv_Cons)
  show ?case
    using ih b Suc(3,5) unfolding step up by auto
qed

lemma run_search_paging:
  assumes "createSearchJob R = Inr sid" "outcome (waitForJob opts R) = Inr ()"
  shows "run_search P opts R =
           page_loop P R (effective_pageSize opts) (effective_maxRows opts) paging_start"
  using assms
  by (simp add: run_search_def effective_pageSize_def effective_maxRows_def Let_def)

lemma page_body_again:
  assumes "page_body P R ps mr st = Inr (True, st')"
  shows "totalAdded st < totalAdded st' \<and> (0 < mr \<longrightarrow> totalAdded st' < mr)"
  using assms
  by (auto simp: page_body_def Let_def split: sum.splits if_splits)

text \<open>
  With a positive cap the loop ends whatever the remote engine answers: every pass that
  goes round again has added at least one row and stayed below the cap.
\<close>

lemma page_loop_terminates:
  assumes "0 < mr"
  shows "\<exists>r. page_loop P R ps mr st = Some r"
proof (induction "nat (mr - totalAdded st)" arbitrary: st rule: less_induct)
  case less
  show ?case
  proof (cases "page_body P R ps mr st")
    case (Inl e)
    then show ?thesis by (subst page_loop.simps) simp
  next
    case (Inr p)
    obtain again st' where p: "p = (again, st')" by (cases p)
    show ?thesis
    proof (cases again)
      case False
      then show ?thesis using Inr p by (subst page_loop.simps) simp
    next
      case True
      then have b: "page_body P R ps mr st = Inr (True, st')" using Inr p by simp
      have "nat (mr - totalAdded st') < nat (mr - totalAdded st)"
        using page_body_again [OF b] assms by linarith
      from less [OF this] obtain r where "page_loop P R ps mr st' = Some r" by blast
      then show ?thesis using b by (subst page_loop.simps) simp
    qed
  qed
qed

text \<open>
  What the cap does bound: the rows collected before the last page are fewer than the
  cap, so the table exceeds it by less than the length of the last page.
\<close>

lemma table_overshoot:
  assumes "0 < mr" "\<forall>j \<le> k. fetch_ok R j" "stops_at ps mr R k" "\<forall>j < k. \<not> stops_at ps mr R j"
  shows "\<exists>st. page_loop P R ps mr paging_start = Some (Inr st)
     \<and> int (length (table st)) = rows_before R (Suc k)
     \<and> rows_before R k < mr
     \<and> int (length (table st)) < mr + int (length (page_of R k))"
proof -
  have "\<exists>st'. page_loop P R ps mr paging_start = Some (Inr st')
     \<and> requests st' = requests paging_start @ map (\<lambda>j. (ps, rows_before R j)) [0..<Suc k]
     \<and> table st' = table paging_start
          @ concat (map (\<lambda>j. map (mapRow P) (page_of R j)) [0..<Suc k])
     \<and> fetches st' = Suc k
     \<and> totalAdded st' = rows_before R (Suc k)"
    by (rule page_loop_run) (use assms(2-4) in \<open>auto simp: paging_start_def\<close>)
  then obtain st where l: "page_loop P R ps mr paging_start = Some (Inr st)"
    and t: "table st = concat (map (\<lambda>j. map (mapRow P) (page_of R j)) [0..<Suc k])"
    by (auto simp: paging_start_def)
  have len: "\<And>n. int (length (concat (map (\<lambda>j. map (mapRow P) (page_of R j)) [0..<n])))
      = rows_before R n"
  proof -
    fix n show "int (length (concat (map (\<lambda>j. map (mapRow P) (page_of R j)) [0..<n])))
      = rows_before R n"
      by (induction n) simp_all
  qed
  have before: "rows_before R k < mr"
  proof (cases k)
    case 0
    then show ?thesis using assms(1) by simp
  next
    case (Suc m)
    then have "\<not> stops_at ps mr R m" using assms(4) by simp
    then show ?thesis using assms(1) Suc by (simp add: stops_at_def)
  qed
  show ?thesis
    using l t len [of "Suc k"] before by auto
qed

lemma full_pages:
  "n < 5 \<Longrightarrow> results_response full_pages_remote n
     = Inr \<lparr>results = Some (replicate 20 event_record), result_fields = None\<rparr>"
  by (simp add: full_pages_remote_def example_remote_def)

lemma full_pages_page_of: "n < 5 \<Longrightarrow> page_of full_pages_remote n = replicate 20 event_record"
  by (simp add: page_of_def full_pages)

lemma mapRow_event: "mapRow example_platform event_record = event_row"
  by (simp add: mapRow_def event_record_def event_row_def example_platform_def epoch_string_def)

lemma full_pages_job:
  "createSearchJob full_pages_remote = Inr ''sid1''
   \<and> outcome (waitForJob sixty_rows_options full_pages_remote) = Inr ()"
  by code_simp

lemma run_search_sixty:
  "\<exists>st. run_search example_platform sixty_rows_options full_pages_remote = Some (Inr st)
     \<and> table st = replicate 60 event_row"
proof -
  have ps: "effective_pageSize sixty_rows_options = 20"
    and mr: "effective_maxRows sixty_rows_options = 50"
    by (simp_all add: effective_pageSize_def effective_maxRows_def sixty_rows_options_def
        no_options_def)
  have rb: "rows_before full_pages_remote (Suc 0) = 20"
    "rows_before full_pages_remote (Suc (Suc 0)) = 40"
    "rows_before full_pages_remote (Suc (Suc (Suc 0))) = 60"
    by (simp_all add: full_pages_page_of)
  have ok: "\<And>j. 0 \<le> j \<Longrightarrow> j \<le> 2 \<Longrightarrow> fetch_ok full_pages_remote j"
    by (simp add: fetch_ok_def full_pages)
  have stop: "stops_at 20 50 full_pages_remote 2"
    using rb by (simp add: stops_at_def numeral_2_eq_2)
  have go: "\<And>j. 0 \<le> j \<Longrightarrow> j < 2 \<Longrightarrow> \<not> stops_at 20 50 full_pages_remote j"
  proof -
    fix j :: nat assume "j < 2"
    then have "j = 0 \<or> j = Suc 0" by auto
    then show "\<not> stops_at 20 50 full_pages_remote j"
      using rb by (auto simp: stops_at_def full_pages_page_of)
  qed
  have "\<exists>st'. page_loop example_platform full_pages_remote 20 50 paging_start = Some (Inr st')
     \<and> requests st' = requests paging_start
          @ map (\<lambda>j. (20, rows_before full_pages_remote j)) [0..<Suc 2]
     \<and> table st' = table paging_start
          @ concat (map (\<lambda>j. map (mapRow example_platform) (page_of full_pages_remote j))
                      [0..<Suc 2])
     \<and> fetches st' = Suc 2
     \<and> totalAdded st' = rows_before full_pages_remote (Suc 2)"
    by (rule page_loop_run [OF _ _ _ _ ok stop go]) (simp_all add: paging_start_def)
  then obtain st' where
    l: "page_loop example_platform full_pages_remote 20 50 paging_start = Some (Inr st')"
    and t: "table st' = table paging_start
          @ concat (map (\<lambda>j. map (mapRow example_platform) (page_of full_pages_remote j))
                      [0..<Suc 2])"
    by blast
  have up: "[0..<Suc 2] = [0, 1, 2]"
    by (simp add: upt_rec numeral_2_eq_2)
  have "table st' = replicate 20 event_row @ replicate 20 event_row @ replicate 20 event_row"
    unfolding t up by (simp add: paging_start_def full_pages_page_of mapRow_event)
  also have "\<dots> = replicate 60 event_row"
    by (simp add: replicate_add [symmetric])
  finally have "table st' = replicate 60 event_row" .
  moreover have "run_search example_platform sixty_rows_options full_pages_remote = Some (Inr st')"
    using run_search_paging [of full_pages_remote "''sid1''" sixty_rows_options example_platform]
      full_pages_job l by (simp add: ps mr)
  ultimately show ?thesis by blast
qed

lemma guard_plain:
  "isQueryDangerous example_platform ''search index=main'' sixty_rows_options = Inr None"
  by code_simp

text \<open>
  C5. Pagination starts at offset 0 with the configured page size clamped into
  \<open>[1, 5000]\<close> (0 or a negative size becomes 1). When the job is created and reported
  done, the results requests up to the \<open>k\<close>-th return payloads, and \<open>k\<close> is the first
  page at which the stop condition holds (page empty; or cap positive and reached by
  the running total; or page shorter than the page size), the requests issued are
  exactly those for the pages \<open>0, ..., k\<close>, each with the clamped page size and with
  the offset advanced by the rows of the pages before it: fetching continues through
  every page before \<open>k\<close> and no request follows the \<open>k\<close>-th.
\<close>

theorem paging_requests:
  assumes "createSearchJob R = Inr sid" "outcome (waitForJob opts R) = Inr ()"
    and "\<forall>j \<le> k. fetch_ok R j"
    and "stops_at (effective_pageSize opts) (effective_maxRows opts) R k"
    and "\<forall>j < k. \<not> stops_at (effective_pageSize opts) (effective_maxRows opts) R j"
  shows "1 \<le> effective_pageSize opts \<and> effective_pageSize opts \<le> 5000
     \<and> effective_pageSize opts = (case pageSize opts of None \<Rightarrow> 200
          | Some v \<Rightarrow> if v < 1 then 1 else if 5000 < v then 5000 else v)
     \<and> (\<exists>st. run_search P opts R = Some (Inr st)
          \<and> requests st = map (\<lambda>j. (effective_pageSize opts, rows_before R j)) [0..<Suc k]
          \<and> table st = concat (map (\<lambda>j. map (mapRow P) (page_of R j)) [0..<Suc k]))"
proof -
  have clamp: "1 \<le> effective_pageSize opts \<and> effective_pageSize opts \<le> 5000
     \<and> effective_pageSize opts = (case pageSize opts of None \<Rightarrow> 200
          | Some v \<Rightarrow> if v < 1 then 1 else if 5000 < v then 5000 else v)"
    by (cases "pageSize opts") (auto simp: effective_pageSize_def)
  have "\<exists>st'. page_loop P R (effective_pageSize opts) (effective_maxRows opts) paging_start
                 = Some (Inr st')
     \<and> requests st' = requests paging_start
          @ map (\<lambda>j. (effective_pageSize opts, rows_before R j)) [0..<Suc k]
     \<and> table st' = table paging_start
          @ concat (map (\<lambda>j. map (mapRow P) (page_of R j)) [0..<Suc k])
     \<and> fetches st' = Suc k
     \<and> totalAdded st' = rows_before R (Suc k)"
    by (rule page_loop_run) (use assms(3-5) in \<open>auto simp: paging_start_def\<close>)
  then have "\<exists>st. run_search P opts R = Some (Inr st)
          \<and> requests st = map (\<lambda>j. (effective_pageSize opts, rows_before R j)) [0..<Suc k]
          \<and> table st = concat (map (\<lambda>j. map (mapRow P) (page_of R j)) [0..<Suc k])"
    unfolding run_search_paging [OF assms(1,2)] by (auto simp: paging_start_def)
  with clamp show ?thesis by blast
qed

theorem paging_requests_witness:
  "createSearchJob short_tail_remote = Inr ''sid1''
   \<and> outcome (waitForJob unlimited_options short_tail_remote) = Inr ()
   \<and> fetch_ok short_tail_remote 0 \<and> fetch_ok short_tail_remote 1
   \<and> stops_at (effective_pageSize unlimited_options) (effective_maxRows unlimited_options)
        short_tail_remote 1
   \<and> \<not> stops_at (effective_pageSize unlimited_options) (effective_maxRows unlimited_options)
        short_tail_remote 0
   \<and> (\<exists>st. run_search example_platform unlimited_options short_tail_remote = Some (Inr st)
        \<and> requests st = [(20, 0), (20, 20)]
        \<and> table st = replicate 27 event_row)"
proof -
  have ps: "effective_pageSize unlimited_options = 20"
    and mr: "effective_maxRows unlimited_options = 0"
    by (simp_all add: effective_pageSize_def effective_maxRows_def unlimited_options_def
        no_options_def)
  have job: "createSearchJob short_tail_remote = Inr ''sid1''"
    "outcome (waitForJob unlimited_options short_tail_remote) = Inr ()"
    by code_simp+
  have p0: "page_of short_tail_remote 0 = replicate 20 event_record"
    and p1: "page_of short_tail_remote (Suc 0) = replicate 7 event_record"
    by (simp_all add: page_of_def short_tail_remote_def example_remote_def)
  have ok: "\<forall>j \<le> 1. fetch_ok short_tail_remote j"
    by (simp add: fetch_ok_def short_tail_remote_def example_remote_def)
  have stop: "stops_at (effective_pageSize unlimited_options)
      (effective_maxRows unlimited_options) short_tail_remote 1"
    by (simp add: ps mr stops_at_def p1)
  have go: "\<forall>j < 1. \<not> stops_at (effective_pageSize unlimited_options)
      (effective_maxRows unlimited_options) short_tail_remote j"
    by (simp add: ps mr stops_at_def p0)
  have up: "[0..<Suc 1] = [0, 1]"
    by (simp add: upt_rec)
  have "\<exists>st. run_search example_platform unlimited_options short_tail_remote = Some (Inr st)
          \<and> requests st = map (\<lambda>j. (effective_pageSize unlimited_options,
                                     rows_before short_tail_remote j)) [0..<Suc 1]
          \<and> table st = concat (map (\<lambda>j. map (mapRow example_platform)
                                          (page_of short_tail_remote j)) [0..<Suc 1])"
    using paging_requests [OF job ok stop go, of example_platform] by blast
  then have "\<exists>st. run_search example_platform unlimited_options short_tail_remote = Some (Inr st)
        \<and> requests st = [(20, 0), (20, 20)]
        \<and> table st = replicate 27 event_row"
    unfolding up by (simp add: ps p0 p1 mapRow_event replicate_add [symmetric])
  then show ?thesis
    using job ok stop go by simp
qed

lemma sixty_rows_response:
  "query example_platform sixty_rows_options full_pages_jobs one_target_request
   = Some (Inr [TableFrame ''A'' (replicate 60 event_row)])"
proof -
  obtain st where r: "run_search example_platform sixty_rows_options full_pages_remote = Some (Inr st)"
    and t: "table st = replicate 60 event_row"
    using run_search_sixty by blast
  have re: "\<not> range_exceeded sixty_rows_options one_target_request"
    by (simp add: range_exceeded_def sixty_rows_options_def no_options_def)
  have it: "interpolateSPL example_platform ''search index=main'' [] = ''search index=main''"
    by (simp add: interpolateSPL_def example_platform_def)
  have "query_target example_platform sixty_rows_options [] full_pages_remote target_A
      = Some (Inr (Some (TableFrame ''A'' (replicate 60 event_row))))"
    by (simp add: query_target_def target_A_def it guard_plain r t Let_def)
  moreover have "query example_platform sixty_rows_options full_pages_jobs one_target_request
      = query_loop example_platform sixty_rows_options [] full_pages_jobs 0 [target_A] []"
    using re by (simp add: query_def) (simp add: one_target_request_def)
  ultimately show ?thesis
    by (simp add: full_pages_jobs_def)
qed

text \<open>
  The rows of a table, whatever the remote engine answers. Every pass through the loop
  body that returns has fetched one more page and added all its rows, and the loop
  goes round again only while the running total is below a positive cap.
\<close>

lemma page_body_rows:
  assumes "page_body P R ps mr st = Inr (again, st')"
    and "int (length (table st)) = rows_before R (fetches st)"
    and "totalAdded st = rows_before R (fetches st)"
  shows "fetches st' = Suc (fetches st)
     \<and> int (length (table st')) = rows_before R (Suc (fetches st))
     \<and> totalAdded st' = rows_before R (Suc (fetches st))"
  using assms
  by (auto simp: page_body_def fetchResults_def page_of_def Let_def split: sum.splits if_splits)

lemma page_loop_rows:
  assumes "0 < mr" "page_loop P R ps mr st = Some (Inr st')"
    and "int (length (table st)) = rows_before R (fetches st)"
    and "totalAdded st = rows_before R (fetches st)"
    and "totalAdded st < mr"
  shows "\<exists>n. int (length (table st')) = rows_before R (Suc n) \<and> rows_before R n < mr"
  using assms(2-5)
proof (induction "nat (mr - totalAdded st)" arbitrary: st rule: less_induct)
  case less
  show ?case
  proof (cases "page_body P R ps mr st")
    case (Inl e)
    then have "page_loop P R ps mr st = Some (Inl e)"
      by (subst page_loop.simps) simp
    then show ?thesis using less(2) by simp
  next
    case (Inr p)
    obtain again st1 where p: "p = (again, st1)" by (cases p)
    have b: "page_body P R ps mr st = Inr (again, st1)"
      using Inr p by simp
    note rows = page_body_rows [OF b less(3,4)]
    show ?thesis
    proof (cases again)
      case False
      then have "page_loop P R ps mr st = Some (Inr st1)"
        using b by (subst page_loop.simps) simp
      then have "st' = st1" using less(2) by simp
      then have "int (length (table st')) = rows_before R (Suc (fetches st))
          \<and> rows_before R (fetches st) < mr"
        using rows less(4,5) by simp
      then show ?thesis by (rule exI)
    next
      case True
      then have b': "page_body P R ps mr st = Inr (True, st1)" using b by simp
      have below: "totalAdded st < totalAdded st1" "totalAdded st1 < mr"
        using page_body_again [OF b'] assms(1) by simp_all
      have step: "page_loop P R ps mr st = page_loop P R ps mr st1"
        by (subst page_loop.simps) (simp add: b')
      show ?thesis
      proof (rule less(1))
        show "nat (mr - totalAdded st1) < nat (mr - totalAdded st)"
          using below by linarith
        show "page_loop P R ps mr st1 = Some (Inr st')"
          using less(2) step by simp
        show "int (length (table st1)) = rows_before R (fetches st1)"
          using rows by simp
        show "totalAdded st1 = rows_before R (fetches st1)"
          using rows by simp
        show "totalAdded st1 < mr"
          by (rule below(2))
      qed
    qed
  qed
qed

lemma run_search_rows:
  assumes "0 < effective_maxRows opts" "run_search P opts R = Some (Inr st)"
  shows "\<exists>n. int (length (table st)) = rows_before R (Suc n)
     \<and> rows_before R n < effective_maxRows opts"
proof -
  have "page_loop P R (effective_pageSize opts) (effective_maxRows opts) paging_start
      = Some (Inr st)"
    using assms(2)
    by (auto simp: run_search_def effective_pageSize_def effective_maxRows_def Let_def
        split: sum.splits)
  then show ?thesis
    by (rule page_loop_rows [OF assms(1)]) (use assms(1) in \<open>simp_all add: paging_start_def\<close>)
qed

lemma query_target_rows:
  assumes "0 < effective_maxRows opts"
    and "query_target P opts sv R t = Some (Inr (Some (TableFrame r rows)))"
  shows "\<exists>n. int (length rows) = rows_before R (Suc n)
     \<and> rows_before R n < effective_maxRows opts"
proof -
  obtain st where "run_search P opts R = Some (Inr st)" "rows = table st"
    using assms(2)
    by (auto simp: query_target_def Let_def split: if_splits sum.splits option.splits)
  then show ?thesis
    using run_search_rows [OF assms(1), of P R st] by simp
qed

lemma query_loop_rows:
  assumes "0 < effective_maxRows opts"
    and "query_loop P opts sv Rs k ts fs = Some (Inr frames)"
    and "TableFrame r rows \<in> set frames"
  shows "TableFrame r rows \<in> set fs
     \<or> (\<exists>j n. k \<le> j \<and> j < k + length ts
           \<and> int (length rows) = rows_before (Rs j) (Suc n)
           \<and> rows_before (Rs j) n < effective_maxRows opts)"
  using assms(2)
proof (induction ts arbitrary: k fs)
  case Nil
  then show ?case using assms(3) by simp
next
  case (Cons t ts)
  show ?case
  proof (cases "query_target P opts sv (Rs k) t")
    case None
    then show ?thesis using Cons.prems by simp
  next
    case (Some res)
    show ?thesis
    proof (cases res)
      case (Inl e)
      then show ?thesis using Some Cons.prems by simp
    next
      case (Inr fo)
      show ?thesis
      proof (cases fo)
        case None
        then have "query_loop P opts sv Rs (Suc k) ts fs = Some (Inr frames)"
          using Some Inr Cons.prems by simp
        from Cons.IH [OF this] show ?thesis
          by (auto intro: Suc_leD)
      next
        case (Some f)
        then have t: "query_target P opts sv (Rs k) t = Some (Inr (Some f))"
          using \<open>query_target P opts sv (Rs k) t = Some res\<close> Inr by simp
        then have "query_loop P opts sv Rs (Suc k) ts (fs @ [f]) = Some (Inr frames)"
          using Cons.prems by simp
        from Cons.IH [OF this] consider
            (old) "TableFrame r rows \<in> set fs"
          | (new) "f = TableFrame r rows"
          | (later) "\<exists>j n. Suc k \<le> j \<and> j < Suc k + length ts
               \<and> int (length rows) = rows_before (Rs j) (Suc n)
               \<and> rows_before (Rs j) n < effective_maxRows opts"
          by auto
        then show ?thesis
        proof cases
          case old
          then show ?thesis by simp
        next
          case new
          obtain n where "int (length rows) = rows_before (Rs k) (Suc n)"
              "rows_before (Rs k) n < effective_maxRows opts"
            using query_target_rows [OF assms(1), of P sv "Rs k" t r rows] t new by auto
          then have "k \<le> k \<and> k < k + length (t # ts)
               \<and> int (length rows) = rows_before (Rs k) (Suc n)
               \<and> rows_before (Rs k) n < effective_maxRows opts"
            by simp
          then show ?thesis by blast
        next
          case later
          then obtain j n where "Suc k \<le> j" "j < Suc k + length ts"
              "int (length rows) = rows_before (Rs j) (Suc n)"
              "rows_before (Rs j) n < effective_maxRows opts"
            by blast
          then have "k \<le> j \<and> j < k + length (t # ts)
               \<and> int (length rows) = rows_before (Rs j) (Suc n)
               \<and> rows_before (Rs j) n < effective_maxRows opts"
            by simp
          then show ?thesis by blast
        qed
      qed
    qed
  qed
qed

text \<open>
  C1, as the code has it. With a positive \<open>maxRows\<close>, every table that \<open>query\<close> returns
  holds the rows of whole pages of its target's job, the \<open>k\<close>-th target's table those
  of the pages \<open>0, ..., n\<close> for some \<open>n\<close>: the pages before the last one hold fewer than
  \<open>maxRows\<close> rows, and the last page is added whole. So the table has fewer than
  \<open>maxRows\<close> plus the length of that last page rows, and fewer than \<open>maxRows + pageSize\<close>
  when the remote engine returns no page longer than the (clamped) page size: the cap
  stops further fetches and cuts no page.
\<close>

theorem table_rows_bound:
  assumes "0 < effective_maxRows opts"
    and "query P opts Rs req = Some (Inr frames)"
    and "TableFrame r rows \<in> set frames"
  shows "(\<exists>k n. k < length (targets req)
            \<and> int (length rows) = rows_before (Rs k) (Suc n)
            \<and> rows_before (Rs k) n < effective_maxRows opts
            \<and> int (length rows) < effective_maxRows opts + int (length (page_of (Rs k) n)))
     \<and> ((\<forall>k n. int (length (page_of (Rs k) n)) \<le> effective_pageSize opts)
          \<longrightarrow> int (length rows) < effective_maxRows opts + effective_pageSize opts)"
proof -
  have loop: "query_loop P opts (scopedVars req) Rs 0 (targets req) [] = Some (Inr frames)"
    using assms(2,3) by (auto simp: query_def split: if_splits)
  obtain k n where k: "k < length (targets req)"
    and len: "int (length rows) = rows_before (Rs k) (Suc n)"
    and before: "rows_before (Rs k) n < effective_maxRows opts"
    using query_loop_rows [OF assms(1) loop assms(3)] by auto
  have over: "int (length rows) < effective_maxRows opts + int (length (page_of (Rs k) n))"
    using len before by simp
  have "(\<forall>k n. int (length (page_of (Rs k) n)) \<le> effective_pageSize opts)
          \<longrightarrow> int (length rows) < effective_maxRows opts + effective_pageSize opts"
  proof
    assume "\<forall>k n. int (length (page_of (Rs k) n)) \<le> effective_pageSize opts"
    then have "int (length (page_of (Rs k) n)) \<le> effective_pageSize opts"
      by blast
    then show "int (length rows) < effective_maxRows opts + effective_pageSize opts"
      using over by linarith
  qed
  then show ?thesis
    using k len before over by blast
qed

lemma full_pages_lengths:
  "int (length (page_of (full_pages_jobs k) n)) \<le> effective_pageSize sixty_rows_options"
proof -
  have "length (page_of full_pages_remote n) \<le> 20"
    by (cases "n < 5") (simp_all add: full_pages_page_of page_of_def full_pages_remote_def
        example_remote_def)
  moreover have "effective_pageSize sixty_rows_options = 20"
    by (simp add: effective_pageSize_def sixty_rows_options_def no_options_def)
  ultimately show ?thesis
    by (simp add: full_pages_jobs_def)
qed

theorem table_rows_bound_witness:
  "0 < effective_maxRows sixty_rows_options
   \<and> query example_platform sixty_rows_options full_pages_jobs one_target_request
       = Some (Inr [TableFrame ''A'' (replicate 60 event_row)])
   \<and> TableFrame ''A'' (replicate 60 event_row) \<in> set [TableFrame ''A'' (replicate 60 event_row)]
   \<and> (\<forall>k n. int (length (page_of (full_pages_jobs k) n)) \<le> effective_pageSize sixty_rows_options)
   \<and> effective_maxRows sixty_rows_options + effective_pageSize sixty_rows_options = 70
   \<and> int (length (replicate 60 event_row))
       < effective_maxRows sixty_rows_options + effective_pageSize sixty_rows_options
   \<and> (\<exists>k n. k < length (targets one_target_request)
         \<and> int (length (replicate 60 event_row)) = rows_before (full_pages_jobs k) (Suc n)
         \<and> rows_before (full_pages_jobs k) n < effective_maxRows sixty_rows_options)"
proof -
  have mr: "0 < effective_maxRows sixty_rows_options"
    and sum: "effective_maxRows sixty_rows_options + effective_pageSize sixty_rows_options = 70"
    by (simp_all add: effective_maxRows_def effective_pageSize_def sixty_rows_options_def
        no_options_def)
  have mem: "TableFrame ''A'' (replicate 60 event_row)
      \<in> set [TableFrame ''A'' (replicate 60 event_row)]"
    by simp
  have pages: "\<forall>k n. int (length (page_of (full_pages_jobs k) n))
      \<le> effective_pageSize sixty_rows_options"
    using full_pages_lengths by blast
  note t = table_rows_bound [OF mr sixty_rows_response mem]
  have bound: "int (length (replicate 60 event_row))
       < effective_maxRows sixty_rows_options + effective_pageSize sixty_rows_options"
    using t pages by blast
  have ex: "\<exists>k n. k < length (targets one_target_request)
         \<and> int (length (replicate 60 event_row)) = rows_before (full_pages_jobs k) (Suc n)
         \<and> rows_before (full_pages_jobs k) n < effective_maxRows sixty_rows_options"
    using t by blast
  show ?thesis
    by (intro conjI) (fact mr sixty_rows_response mem pages sum bound ex)+
qed

text \<open>
  C1 as stated fails: with \<open>maxRows = 50\<close>, \<open>pageSize = 20\<close> and a remote engine that
  answers every results request with a full page of 20 rows, the cap is reached with
  the third page, and the table that \<open>query\<close> returns for the target has all 60 rows.
\<close>

theorem query_sixty_rows:
  "maxRows sixty_rows_options = Some 50
   \<and> query example_platform sixty_rows_options full_pages_jobs one_target_request
       = Some (Inr [TableFrame ''A'' (replicate 60 event_row)])
   \<and> length (replicate 60 event_row) = 60
   \<and> \<not> length (replicate 60 event_row) \<le> 50"
  using sixty_rows_response by (simp add: sixty_rows_options_def no_options_def)

subsection \<open>Clamped settings\<close>













subsection \<open>Variable queries\<close>






lemma isQueryDangerous_no_throw:
  assumes "deny_list_compiles P opts"
  shows "\<exists>v. isQueryDangerous P q opts = Inr v"
  using assms
  by (auto simp: isQueryDangerous_def compileBannedRegex_parts deny_list_compiles_def Let_def
        split: sum.splits list.splits)

lemma metricFindQuery_contained:
  assumes "deny_list_compiles P opts"
  shows "\<exists>vs. metricFindQuery P opts R q = Inr vs"
proof -
  obtain v where "isQueryDangerous P (interpolateSPL P (case q of Inl s \<Rightarrow> s | Inr t \<Rightarrow> nullish (queryText t) []) []) opts = Inr v"
    using isQueryDangerous_no_throw [OF assms] by blast
  then show ?thesis
    by (cases v; cases "metricFind_try opts R") (simp_all add: metricFindQuery_def Let_def)
qed

text \<open>
  On every platform, an exception of the guardrail leaves \<open>metricFindQuery\<close>, and
  the constructor's exception for the joined pattern is such an exception whenever the
  query is non-empty and \<open>allowDangerousCommands\<close> is unset.
\<close>

lemma isQueryDangerous_throws:
  assumes "trim q \<noteq> []" "\<not> truthy (allowDangerousCommands opts)" "banned_parts opts \<noteq> []"
    and "RegExp_new P (banned_source (banned_parts opts)) ''i'' = Inl m"
  shows "isQueryDangerous P q opts = Inl (SyntaxError m)"
  using assms by (simp add: isQueryDangerous_def compileBannedRegex_parts Let_def)

lemma metricFindQuery_propagates:
  assumes "isQueryDangerous P (interpolateSPL P (case q of Inl s \<Rightarrow> s | Inr t \<Rightarrow> nullish (queryText t) []) []) opts = Inl e"
  shows "metricFindQuery P opts R q = Inl e"
  using assms by (simp add: metricFindQuery_def Let_def)

text \<open>
  C8. The claim is that \<open>metricFindQuery\<close> never propagates an error. The guardrail is
  evaluated before the \<open>try\<close> block: with a deny-list line that is no regular
  expression and a non-empty query, the constructor's \<open>SyntaxError\<close> leaves
  \<open>metricFindQuery\<close>. (With a deny-list that compiles it always returns a list, as
  \<open>metricFindQuery_contained\<close> shows.)
\<close>

theorem metricFindQuery_throws:
  "metricFindQuery example_platform broken_options hosts_remote hosts_query
     = Inl (SyntaxError ''Invalid regular expression'')"
  by code_simp

subsection \<open>Row mapper\<close>

lemma mapRow_fields:
  "time (mapRow P r) =
     (case Date_parse P (map_of r ''_time'') of
        None \<Rightarrow> Date_now P
      | Some t \<Rightarrow> if t = 0 then Date_now P else t)
   \<and> host (mapRow P r)
       = first_present [map_of r ''host'', map_of r ''sourceHost'', map_of r ''hosts'']
   \<and> message (mapRow P r)
       = first_present [map_of r ''_raw'', map_of r ''message'', map_of r ''_msg'']"
proof -
  have fp: "\<And>a b c. nullish_value (nullish_field (nullish_field a b) c) (JStr [])
      = first_present [a, b, c]"
  proof -
    fix a b c :: "jsval option"
    show "nullish_value (nullish_field (nullish_field a b) c) (JStr []) = first_present [a, b, c]"
      by (cases a rule: missing.cases; cases b rule: missing.cases; cases c rule: missing.cases)
         simp_all
  qed
  show ?thesis by (simp add: mapRow_def fp)
qed

text \<open>
  C9. The claim is that \<open>time\<close> is the parsed value of \<open>_time\<close> whenever the field is
  present and parsable. \<open>Date.parse(r._time) || Date.now()\<close> also takes the clock when
  the parse is the number 0: a record dated at the epoch is mapped to the current
  instant. (The \<open>host\<close> and \<open>message\<close> fields are as the claim says, by
  \<open>mapRow_fields\<close>.)
\<close>

theorem mapRow_epoch:
  "Date_parse example_platform (map_of epoch_record ''_time'') = Some 0
   \<and> mapRow example_platform epoch_record
       = \<lparr>time = Date_now example_platform, host = JStr ''web1'', message = JStr ''event''\<rparr>
   \<and> Date_now example_platform \<noteq> 0"
  by code_simp

subsection \<open>Query orchestrator\<close>

lemma query_target_frame:
  assumes "deny_list_compiles P opts" "query_target P opts sv R t = Some x"
  shows "if truthy (hide t) then x = Inr None
         else (\<exists>f. x = Inr (Some f) \<and> frame_refId f = refId t)"
proof (cases "truthy (hide t)")
  case True
  then show ?thesis using assms(2) by (simp add: query_target_def)
next
  case False
  obtain v where g: "isQueryDangerous P (interpolateSPL P (nullish (queryText t) []) sv) opts = Inr v"
    using isQueryDangerous_no_throw [OF assms(1)] by blast
  show ?thesis
  proof (cases v)
    case (Some m)
    then show ?thesis using assms(2) False g by (auto simp: query_target_def Let_def)
  next
    case None
    show ?thesis
    proof (cases "run_search P opts R")
      case None
      then show ?thesis using assms(2) False g \<open>v = None\<close> by (simp add: query_target_def Let_def)
    next
      case (Some y)
      then show ?thesis using assms(2) False g \<open>v = None\<close>
        by (cases y) (auto simp: query_target_def Let_def)
    qed
  qed
qed

lemma query_loop_frames:
  assumes "deny_list_compiles P opts"
  shows "query_loop P opts sv Rs k ts fs = Some res
    \<Longrightarrow> \<exists>frames. res = Inr (fs @ frames)
          \<and> map frame_refId frames = map refId (filter (\<lambda>t. \<not> truthy (hide t)) ts)"
proof (induction ts arbitrary: k fs)
  case Nil
  then show ?case by simp
next
  case (Cons t ts)
  show ?case
  proof (cases "query_target P opts sv (Rs k) t")
    case None
    then show ?thesis using Cons.prems by simp
  next
    case (Some x)
    note qt = query_target_frame [OF assms Some]
    show ?thesis
    proof (cases "truthy (hide t)")
      case True
      then have "x = Inr None" using qt by simp
      then have "query_loop P opts sv Rs (Suc k) ts fs = Some res"
        using Cons.prems Some by simp
      from Cons.IH [OF this] show ?thesis using True by simp
    next
      case False
      then obtain f where x: "x = Inr (Some f)" and f: "frame_refId f = refId t"
        using qt by auto
      then have "query_loop P opts sv Rs (Suc k) ts (fs @ [f]) = Some res"
        using Cons.prems Some by simp
      from Cons.IH [OF this] obtain frames where
        "res = Inr ((fs @ [f]) @ frames)"
        "map frame_refId frames = map refId (filter (\<lambda>t. \<not> truthy (hide t)) ts)"
        by blast
      then have "res = Inr (fs @ (f # frames))
          \<and> map frame_refId (f # frames) = map refId (filter (\<lambda>t. \<not> truthy (hide t)) (t # ts))"
        using False f by simp
      then show ?thesis by blast
    qed
  qed
qed

lemma query_frames:
  assumes "deny_list_compiles P opts" "\<not> range_exceeded opts req"
    "query P opts Rs req = Some res"
  shows "\<exists>frames. res = Inr frames
          \<and> map frame_refId frames = map refId (filter (\<lambda>t. \<not> truthy (hide t)) (targets req))"
  using query_loop_frames [OF assms(1), of "scopedVars req" Rs 0 "targets req" "[]" res] assms(2,3)
  by (simp add: query_def)

text \<open>
  On every platform, an exception of the guardrail for a non-hidden target ends the
  loop over the targets: the targets after it are not processed.
\<close>

lemma query_loop_propagates:
  assumes "\<not> truthy (hide t)"
    and "isQueryDangerous P (interpolateSPL P (nullish (queryText t) []) sv) opts = Inl e"
  shows "query_loop P opts sv Rs k (t # ts) fs = Some (Inl e)"
  using assms by (simp add: query_target_def Let_def)

text \<open>
  C6. The claim is that, the time-range check passed, \<open>query\<close> returns one frame per
  non-hidden target in input order and that an error thrown for one target never keeps
  the later targets from being processed. The guardrail is evaluated before the \<open>try\<close>
  block of the target: with a deny-list line that is no regular expression, the
  \<open>SyntaxError\<close> thrown for the first target leaves \<open>query\<close>, which returns no frame
  at all; the second target, whose empty query would have given a warning frame, is
  never processed. (With a deny-list that compiles, a \<open>query\<close> that returns does
  return one frame per non-hidden target in input order, by \<open>query_frames\<close>.)
\<close>

theorem query_aborts:
  "\<not> range_exceeded broken_options two_target_request
   \<and> query example_platform broken_options (\<lambda>k. hosts_remote) two_target_request
       = Some (Inl (SyntaxError ''Invalid regular expression''))"
  by code_simp

end
